theory Spec2Isabelle
  imports Main "HOL-Library.Char_ord" "HOL-Library.List_Lexorder"
begin

section \<open>Data model\<close>

text \<open>
  The persisted documents of \<^verbatim>\<open>server.py\<close> are JSON files. An event is a JSON object
  with the keys \<^verbatim>\<open>timestamp\<close>, \<^verbatim>\<open>event_type\<close>, \<^verbatim>\<open>repository\<close>, \<^verbatim>\<open>sender\<close> and an optional
  \<^verbatim>\<open>workflow_run\<close> object. A JSON \<^verbatim>\<open>null\<close> (Python \<^verbatim>\<open>None\<close>) is \<open>None\<close>; the keys
  \<^verbatim>\<open>conclusion\<close> and \<^verbatim>\<open>updated_at\<close> of a run may be null. The records are the
  documents the webhook receiver writes: every key the tools index is there, with a value
  of its JSON type.
  Strings are compared as Python compares them: lexicographically, character by character.
\<close>

record run =
  name :: string
  status :: string
  conclusion :: "string option"
  run_number :: int
  updated_at :: "string option"
  html_url :: string

record event =
  timestamp :: string
  event_type :: string
  repository :: string
  sender :: string
  workflow_run :: "run option"

text \<open>
  \<^verbatim>\<open>events_state.json\<close>: the key \<^verbatim>\<open>seen_event_ids\<close> is read with
  \<^verbatim>\<open>state.get("seen_event_ids", [])\<close>, so it may be absent; \<^verbatim>\<open>manually_marked_count\<close>
  is written by \<^verbatim>\<open>mark_events_as_seen\<close> only.
\<close>

record state_doc =
  seen_event_ids :: "string list option"
  last_processed :: "string option"
  manually_marked_count :: "nat option"

text \<open>
  \<^verbatim>\<open>team_config.json\<close> is a JSON object read as a Python dict. Its values are JSON
  strings, lists and objects. A dict is an association list in insertion order; a Python
  dict has each key once.
\<close>

datatype json =
    JStr string
  | JList "json list"
  | JDict "(string \<times> json) list"

type_synonym config = "(string \<times> json) list"

text \<open>
  The three files beside \<^verbatim>\<open>server.py\<close>: \<^verbatim>\<open>EVENTS_FILE\<close>, \<^verbatim>\<open>EVENTS_STATE_FILE\<close> and
  \<^verbatim>\<open>TEAM_CONFIG_FILE\<close>. \<open>None\<close> is a file that does not exist.
\<close>

record files =
  events_file :: "event list option"
  events_state_file :: "state_doc option"
  team_config_file :: "config option"

text \<open>
  \<^verbatim>\<open>datetime.now(timezone.utc)\<close> is read from a clock: \<open>utcnow\<close> is the instant in
  microseconds since the epoch and \<open>utcnow_iso\<close> its \<^verbatim>\<open>isoformat()\<close>.
\<close>

record clock =
  utcnow :: int
  utcnow_iso :: string

text \<open>
  Every tool returns a JSON document: \<^verbatim>\<open>{"message": ...}\<close>, \<^verbatim>\<open>{"error": ...}\<close> or the
  tool's own result.
\<close>

datatype 'a doc = MessageDoc string | ErrorDoc string | Result 'a

section \<open>Python primitives\<close>

text \<open>
  \<^verbatim>\<open>xs[i:]\<close>: a negative start counts from the end and is clamped at the front, a
  start beyond the end gives the empty list.
\<close>

definition slice_from :: "int \<Rightarrow> 'a list \<Rightarrow> 'a list" where
  "slice_from i xs =
     (let n = int (length xs);
          start = (if i < 0 then max (n + i) 0 else min i n)
      in drop (nat start) xs)"

text \<open>
  A Python \<^verbatim>\<open>set\<close> of strings is a duplicate-free list. Python leaves the iteration
  order of a set open; the model iterates in the order \<open>remdups\<close> leaves, and the
  theorems below speak of the elements only.
\<close>

definition py_set :: "string list \<Rightarrow> string list" where
  "py_set xs = remdups xs"

definition set_update :: "string list \<Rightarrow> string list \<Rightarrow> string list" where
  "set_update s xs = remdups (s @ xs)"

section \<open>Recent events\<close>

text \<open>\<^verbatim>\<open>get_recent_actions_events(limit)\<close>: \<^verbatim>\<open>events[-limit:]\<close>, or \<^verbatim>\<open>[]\<close> without the file.\<close>

definition get_recent_actions_events :: "int \<Rightarrow> files \<Rightarrow> event list" where
  "get_recent_actions_events limit fs =
     (case events_file fs of
        None \<Rightarrow> []
      | Some events \<Rightarrow> slice_from (- limit) events)"

section \<open>Unseen events and the seen state\<close>

text \<open>The f-string \<^verbatim>\<open>f"{event['timestamp']}:{event['event_type']}:{event['repository']}"\<close>.\<close>

definition event_id_of :: "event \<Rightarrow> string" where
  "event_id_of e = timestamp e @ '':'' @ event_type e @ '':'' @ repository e"

text \<open>An unseen event is \<^verbatim>\<open>{**event, "event_id": event_id}\<close>.\<close>

record unseen_event =
  ev :: event
  event_id :: string

record unseen_result =
  unseen_count :: nat
  events :: "unseen_event list"
  marked_as_seen :: bool

text \<open>
  Read or initialise the state: the empty set without the file, otherwise
  \<^verbatim>\<open>set(state.get("seen_event_ids", []))\<close>.
\<close>

definition load_seen :: "files \<Rightarrow> string list" where
  "load_seen fs =
     (case events_state_file fs of
        None \<Rightarrow> py_set []
      | Some state \<Rightarrow>
          py_set (case seen_event_ids state of None \<Rightarrow> [] | Some ids \<Rightarrow> ids))"

definition get_unseen_events :: "clock \<Rightarrow> bool \<Rightarrow> files \<Rightarrow> unseen_result doc \<times> files" where
  "get_unseen_events clk mark fs =
     (case events_file fs of
        None \<Rightarrow> (MessageDoc ''No GitHub Actions events received yet'', fs)
      | Some evs \<Rightarrow>
          (let seen_events = load_seen fs;
               unseen_events =
                 map (\<lambda>e. \<lparr>ev = e, event_id = event_id_of e\<rparr>)
                   (filter (\<lambda>e. event_id_of e \<notin> set seen_events) evs);
               new_seen_ids = py_set (map event_id unseen_events);
               fs' =
                 (if mark \<and> unseen_events \<noteq> []
                  then fs\<lparr>events_state_file :=
                         Some \<lparr>seen_event_ids = Some (set_update seen_events new_seen_ids),
                               last_processed = Some (utcnow_iso clk),
                               manually_marked_count = None\<rparr>\<rparr>
                  else fs)
           in (Result \<lparr>unseen_count = length unseen_events,
                       events = unseen_events,
                       marked_as_seen = mark\<rparr>, fs')))"

record mark_result =
  marked :: nat
  total_seen_events :: nat
  event_ids_marked :: "string list"

text \<open>
  \<^verbatim>\<open>mark_events_as_seen(event_ids)\<close>: the argument defaults to \<^verbatim>\<open>None\<close>, and
  \<^verbatim>\<open>not event_ids\<close> holds for \<^verbatim>\<open>None\<close> and for the empty list. The field \<open>marked\<close> is
  the key \<^verbatim>\<open>marked_as_seen\<close> of the result, the number of identities given.
\<close>

definition mark_events_as_seen ::
    "clock \<Rightarrow> string list option \<Rightarrow> files \<Rightarrow> mark_result doc \<times> files" where
  "mark_events_as_seen clk event_ids fs =
     (case event_ids of
        None \<Rightarrow> (ErrorDoc ''No event IDs provided'', fs)
      | Some ids \<Rightarrow>
          if ids = [] then (ErrorDoc ''No event IDs provided'', fs)
          else
            (let seen_events = set_update (load_seen fs) ids
             in (Result \<lparr>marked = length ids,
                         total_seen_events = length seen_events,
                         event_ids_marked = ids\<rparr>,
                 fs\<lparr>events_state_file :=
                      Some \<lparr>seen_event_ids = Some seen_events,
                            last_processed = Some (utcnow_iso clk),
                            manually_marked_count = Some (length ids)\<rparr>\<rparr>)))"

text \<open>The set of identities the Seen-State Store holds; none without the file.\<close>

definition stored_ids :: "files \<Rightarrow> string set" where
  "stored_ids fs = set (load_seen fs)"

text \<open>The unseen events a reply carries; a message carries none.\<close>

fun reply_events :: "unseen_result doc \<Rightarrow> unseen_event list" where
  "reply_events (Result r) = events r"
| "reply_events _ = []"

text \<open>The events the Event Store holds; none without the file.\<close>

definition stored_events :: "files \<Rightarrow> event list" where
  "stored_events fs = (case events_file fs of None \<Rightarrow> [] | Some evs \<Rightarrow> evs)"

text \<open>The annotation of one event, as \<open>get_unseen_events\<close> builds it.\<close>

definition annotate :: "event \<Rightarrow> unseen_event" where
  "annotate e = \<lparr>ev = e, event_id = event_id_of e\<rparr>"

text \<open>
  The two tools that write the Seen-State Store, as calls a client makes one after the
  other; each runs to completion on the files the previous one left.
\<close>

datatype call = Unseen clock bool | MarkSeen clock "string list option"

fun run_call :: "call \<Rightarrow> files \<Rightarrow> files" where
  "run_call (Unseen clk mark) fs = snd (get_unseen_events clk mark fs)"
| "run_call (MarkSeen clk ids) fs = snd (mark_events_as_seen clk ids fs)"


section \<open>Dates and times\<close>

text \<open>
  The exceptions the tools can raise on a well-formed store: \<^verbatim>\<open>ValueError\<close> from
  \<^verbatim>\<open>datetime.fromisoformat\<close>, \<^verbatim>\<open>TypeError\<close> from comparing or subtracting values of
  unlike kinds, \<^verbatim>\<open>OverflowError\<close> from date arithmetic, \<^verbatim>\<open>AttributeError\<close> from a method
  a value does not have, \<^verbatim>\<open>KeyError\<close> from indexing a dict with a key it does not have.
\<close>

datatype error = ValueError | TypeError | OverflowError | AttributeError | KeyError

text \<open>
  A \<^verbatim>\<open>datetime\<close> is naive (no time zone) or aware; an aware one is the instant in
  microseconds since the epoch. \<^verbatim>\<open>datetime.fromisoformat\<close> is a library function: the tools
  take it as the parameter \<open>parse\<close>, where \<open>None\<close> is the \<^verbatim>\<open>ValueError\<close> it raises on a
  string it cannot parse.
\<close>

datatype pydt = Naive int | Aware int

type_synonym parser = "string \<Rightarrow> pydt option"

text \<open>\<^verbatim>\<open>s.replace('Z', '+00:00')\<close> replaces every \<^verbatim>\<open>Z\<close>.\<close>

definition replace_Z :: "string \<Rightarrow> string" where
  "replace_Z s = concat (map (\<lambda>c. if c = CHR ''Z'' then ''+00:00'' else [c]) s)"

text \<open>
  The range of \<^verbatim>\<open>datetime\<close>: from 0001-01-01T00:00:00 to 9999-12-31T23:59:59.999999,
  in microseconds since the epoch. A \<^verbatim>\<open>timedelta\<close> holds at most 999999999 days.
\<close>

definition datetime_min :: int where
  "datetime_min = - 62135596800000000"

definition datetime_max :: int where
  "datetime_max = 253402300799999999"

text \<open>\<^verbatim>\<open>current_time - timedelta(hours=since_hours)\<close>.\<close>

definition cutoff_time :: "int \<Rightarrow> int \<Rightarrow> error + int" where
  "cutoff_time current_time since_hours =
     (if \<bar>since_hours div 24\<bar> > 999999999 then Inl OverflowError
      else
        (let t = current_time - since_hours * 3600000000
         in if t < datetime_min \<or> datetime_max < t then Inl OverflowError else Inr t))"

section \<open>New failures\<close>

text \<open>
  \<^verbatim>\<open>event.get("workflow_run") and event["workflow_run"].get("conclusion") == "failure"\<close>:
  the run of a failure event, if it is one.
\<close>

definition failed_run :: "event \<Rightarrow> run option" where
  "failed_run e =
     (case workflow_run e of
        None \<Rightarrow> None
      | Some r \<Rightarrow> if conclusion r = Some ''failure'' then Some r else None)"

text \<open>
  The first loop of \<^verbatim>\<open>get_new_failures\<close>. The timestamp of a failure event is parsed
  outside any \<^verbatim>\<open>try\<close>: a string that does not parse raises \<^verbatim>\<open>ValueError\<close>, and a
  naive time cannot be compared with the aware cutoff (\<^verbatim>\<open>TypeError\<close>). A selected
  failure is kept with its run.
\<close>

fun select_failures :: "parser \<Rightarrow> int \<Rightarrow> event list \<Rightarrow> error + (event \<times> run) list" where
  "select_failures parse cutoff [] = Inr []"
| "select_failures parse cutoff (e # es) =
     (case failed_run e of
        None \<Rightarrow> select_failures parse cutoff es
      | Some r \<Rightarrow>
          (case parse (replace_Z (timestamp e)) of
             None \<Rightarrow> Inl ValueError
           | Some (Naive t) \<Rightarrow> Inl TypeError
           | Some (Aware event_time) \<Rightarrow>
               (case select_failures parse cutoff es of
                  Inl err \<Rightarrow> Inl err
                | Inr rest \<Rightarrow>
                    Inr (if event_time \<ge> cutoff then (e, r) # rest else rest))))"

record occurrence =
  occ_timestamp :: string
  occ_run_number :: int
  occ_html_url :: string
  occ_sender :: string

record failure_group =
  grp_repository :: string
  workflow_name :: string
  failure_count :: nat
  first_failure :: string
  latest_failure :: string
  failures :: "occurrence list"

text \<open>A Python dict with string keys: lookup, and update of the value under a key.\<close>

definition dict_get :: "(string \<times> 'v) list \<Rightarrow> string \<Rightarrow> 'v option" where
  "dict_get d k = map_of d k"

definition dict_modify :: "string \<Rightarrow> ('v \<Rightarrow> 'v) \<Rightarrow> (string \<times> 'v) list \<Rightarrow> (string \<times> 'v) list" where
  "dict_modify k f d = map (\<lambda>(k', v). if k' = k then (k', f v) else (k', v)) d"

text \<open>\<^verbatim>\<open>d[k] = v\<close>: in place for a key the dict has, at the end for a new one.\<close>

definition dict_set :: "string \<Rightarrow> 'v \<Rightarrow> (string \<times> 'v) list \<Rightarrow> (string \<times> 'v) list" where
  "dict_set k v d = (if dict_get d k = None then d @ [(k, v)] else dict_modify k (\<lambda>_. v) d)"

definition failure_key :: "event \<times> run \<Rightarrow> string" where
  "failure_key fr = repository (fst fr) @ '':'' @ name (snd fr)"

text \<open>The body of the grouping loop, for one failure.\<close>

definition add_failure ::
    "(string \<times> failure_group) list \<Rightarrow> event \<times> run \<Rightarrow> (string \<times> failure_group) list" where
  "add_failure failure_groups fr =
     (let failure = fst fr; r = snd fr;
          repo = repository failure;
          wname = name r;
          key = repo @ '':'' @ wname;
          g1 = (if dict_get failure_groups key = None
                then dict_set key
                       \<lparr>grp_repository = repo, workflow_name = wname, failure_count = 0,
                        first_failure = timestamp failure,
                        latest_failure = timestamp failure, failures = []\<rparr>
                       failure_groups
                else failure_groups);
          g2 = dict_modify key (\<lambda>g. g\<lparr>failure_count := failure_count g + 1\<rparr>) g1;
          g3 = dict_modify key
                 (\<lambda>g. g\<lparr>failures := failures g @
                         [\<lparr>occ_timestamp = timestamp failure,
                           occ_run_number = run_number r,
                           occ_html_url = html_url r,
                           occ_sender = sender failure\<rparr>]\<rparr>) g2
      in dict_modify key
           (\<lambda>g. if timestamp failure > latest_failure g
                then g\<lparr>latest_failure := timestamp failure\<rparr> else g) g3)"

definition group_failures :: "(event \<times> run) list \<Rightarrow> (string \<times> failure_group) list" where
  "group_failures fl = fold (\<lambda>fr groups. add_failure groups fr) fl []"

text \<open>
  \<^verbatim>\<open>sorted(xs, key=key, reverse=True)\<close>: the list is reversed, sorted stably in ascending
  order of the key, and reversed again.
\<close>

definition sorted_reverse :: "('a \<Rightarrow> 'k::linorder) \<Rightarrow> 'a list \<Rightarrow> 'a list" where
  "sorted_reverse key xs = rev (sort_key key (rev xs))"

record failures_result =
  time_window_hours :: int
  total_failure_groups :: nat
  total_individual_failures :: nat
  failure_groups :: "failure_group list"

definition get_new_failures ::
    "parser \<Rightarrow> clock \<Rightarrow> int \<Rightarrow> files \<Rightarrow> error + failures_result doc" where
  "get_new_failures parse clk since_hours fs =
     (case events_file fs of
        None \<Rightarrow> Inr (MessageDoc ''No GitHub Actions events received yet'')
      | Some evs \<Rightarrow>
          (case cutoff_time (utcnow clk) since_hours of
             Inl err \<Rightarrow> Inl err
           | Inr cutoff \<Rightarrow>
               (case select_failures parse cutoff evs of
                  Inl err \<Rightarrow> Inl err
                | Inr fl \<Rightarrow>
                    (let sorted_failures =
                           sorted_reverse failure_count (map snd (group_failures fl))
                     in Inr (Result \<lparr>time_window_hours = since_hours,
                                      total_failure_groups = length sorted_failures,
                                      total_individual_failures = length fl,
                                      failure_groups = sorted_failures\<rparr>)))))"

text \<open>The keys of a list in the order of their first occurrences.\<close>

fun first_occurrences :: "'a list \<Rightarrow> 'a list \<Rightarrow> 'a list" where
  "first_occurrences seen [] = []"
| "first_occurrences seen (x # xs) =
     (if x \<in> set seen then first_occurrences seen xs
      else x # first_occurrences (x # seen) xs)"

text \<open>The key a failure group is filed under, rebuilt from the group's own fields.\<close>

definition group_key :: "failure_group \<Rightarrow> string" where
  "group_key g = grp_repository g @ '':'' @ workflow_name g"

text \<open>How many of the selected failures have the key \<open>k\<close>.\<close>

definition failures_with_key :: "string \<Rightarrow> (event \<times> run) list \<Rightarrow> nat" where
  "failures_with_key k fl = length (filter (\<lambda>fr. failure_key fr = k) fl)"

text \<open>
  Whether the first loop of \<^verbatim>\<open>get_new_failures\<close> keeps an event: a failure whose
  timestamp parses to an aware time not before the cutoff.
\<close>

definition in_window :: "parser \<Rightarrow> int \<Rightarrow> event \<Rightarrow> bool" where
  "in_window parse cutoff e =
     (case failed_run e of
        None \<Rightarrow> False
      | Some r \<Rightarrow>
          (case parse (replace_Z (timestamp e)) of
             Some (Aware t) \<Rightarrow> cutoff \<le> t
           | _ \<Rightarrow> False))"

text \<open>The count a group key carries in a list of groups.\<close>

definition key_count :: "string \<times> failure_group \<Rightarrow> string \<times> nat" where
  "key_count kg = (fst kg, failure_count (snd kg))"

text \<open>
  What the grouping loop does to the group of a failure: count it, append the occurrence,
  move \<open>latest_failure\<close> forward.
\<close>

definition record_failure :: "event \<times> run \<Rightarrow> failure_group \<Rightarrow> failure_group" where
  "record_failure fr =
     (\<lambda>g. if timestamp (fst fr) > latest_failure g
          then g\<lparr>latest_failure := timestamp (fst fr)\<rparr> else g) \<circ>
     (\<lambda>g. g\<lparr>failures := failures g @
              [\<lparr>occ_timestamp = timestamp (fst fr), occ_run_number = run_number (snd fr),
                occ_html_url = html_url (snd fr), occ_sender = sender (fst fr)\<rparr>]\<rparr>) \<circ>
     (\<lambda>g. g\<lparr>failure_count := failure_count g + 1\<rparr>)"

section \<open>Workflow status\<close>

text \<open>
  The value under \<^verbatim>\<open>time_since_run\<close>: the days, hours and minutes of the \<^verbatim>\<open>timedelta\<close>
  and the whole difference, or \<^verbatim>\<open>{"error": ...}\<close>. \<^verbatim>\<open>total_seconds()\<close> is a float; the
  model keeps the difference in microseconds, of which it is the millionth part.
\<close>

datatype time_since = Elapsed int int int int | TimeError string

text \<open>
  A \<^verbatim>\<open>timedelta\<close> is normalised to whole days (rounded down) and the seconds of the day.
  \<^verbatim>\<open>if updated_at\<close> fails for \<^verbatim>\<open>None\<close> and for the empty string; the bare \<^verbatim>\<open>except\<close>
  catches the \<^verbatim>\<open>ValueError\<close> of the parser and the \<^verbatim>\<open>TypeError\<close> of subtracting a naive
  time from the aware current time.
\<close>

definition elapsed_since :: "parser \<Rightarrow> int \<Rightarrow> string option \<Rightarrow> time_since" where
  "elapsed_since parse current_time updated =
     (case updated of
        None \<Rightarrow> TimeError ''No timestamp available''
      | Some s \<Rightarrow>
          if s = [] then TimeError ''No timestamp available''
          else
            (case parse (replace_Z s) of
               None \<Rightarrow> TimeError ''Could not parse timestamp''
             | Some (Naive t) \<Rightarrow> TimeError ''Could not parse timestamp''
             | Some (Aware run_time) \<Rightarrow>
                 (let time_diff = current_time - run_time;
                      seconds = (time_diff mod 86400000000) div 1000000
                  in Elapsed (time_diff div 86400000000) (seconds div 3600)
                       ((seconds mod 3600) div 60) time_diff)))"

record workflow_info =
  info_name :: string
  info_status :: string
  info_conclusion :: "string option"
  info_run_number :: int
  info_updated_at :: "string option"
  time_since_run :: time_since
  info_html_url :: string

record repo_data =
  repo_name :: string
  workflows :: "(string \<times> workflow_info list) list"
  latest_run :: "workflow_info option"
  total_runs :: nat

text \<open>
  \<^verbatim>\<open>a > b\<close> on values that are strings or \<^verbatim>\<open>None\<close>: Python orders two strings and
  raises \<^verbatim>\<open>TypeError\<close> as soon as one side is \<^verbatim>\<open>None\<close>.
\<close>

definition str_gt :: "string option \<Rightarrow> string option \<Rightarrow> error + bool" where
  "str_gt a b =
     (case a of
        None \<Rightarrow> Inl TypeError
      | Some x \<Rightarrow> (case b of None \<Rightarrow> Inl TypeError | Some y \<Rightarrow> Inr (x > y)))"

text \<open>The body of the grouping loop of \<^verbatim>\<open>get_workflow_status\<close>, for one workflow event.\<close>

definition add_run ::
    "parser \<Rightarrow> int \<Rightarrow> (string \<times> repo_data) list \<Rightarrow> event \<times> run \<Rightarrow>
       error + (string \<times> repo_data) list" where
  "add_run parse current_time repositories er =
     (let event = fst er; r = snd er;
          repo = repository event;
          reps1 = (if dict_get repositories repo = None
                   then dict_set repo
                          \<lparr>repo_name = repo, workflows = [], latest_run = None, total_runs = 0\<rparr>
                          repositories
                   else repositories);
          reps2 = dict_modify repo (\<lambda>d. d\<lparr>total_runs := total_runs d + 1\<rparr>) reps1;
          wname = name r;
          reps3 = dict_modify repo
                    (\<lambda>d. if dict_get (workflows d) wname = None
                         then d\<lparr>workflows := dict_set wname [] (workflows d)\<rparr> else d) reps2;
          updated = updated_at r;
          info = \<lparr>info_name = wname, info_status = status r,
                  info_conclusion = conclusion r, info_run_number = run_number r,
                  info_updated_at = updated,
                  time_since_run = elapsed_since parse current_time updated,
                  info_html_url = html_url r\<rparr>;
          reps4 = dict_modify repo
                    (\<lambda>d. d\<lparr>workflows := dict_modify wname (\<lambda>l. l @ [info]) (workflows d)\<rparr>)
                    reps3;
          store_latest = dict_modify repo (\<lambda>d. d\<lparr>latest_run := Some info\<rparr>) reps4
      in case dict_get reps4 repo of
           None \<Rightarrow> Inl KeyError
         | Some d \<Rightarrow>
             (case latest_run d of
                None \<Rightarrow> Inr store_latest
              | Some latest \<Rightarrow>
                  (case str_gt updated (info_updated_at latest) of
                     Inl err \<Rightarrow> Inl err
                   | Inr newer \<Rightarrow> Inr (if newer then store_latest else reps4))))"

fun add_runs ::
    "parser \<Rightarrow> int \<Rightarrow> (string \<times> repo_data) list \<Rightarrow> (event \<times> run) list \<Rightarrow>
       error + (string \<times> repo_data) list" where
  "add_runs parse current_time repositories [] = Inr repositories"
| "add_runs parse current_time repositories (er # ers) =
     (case add_run parse current_time repositories er of
        Inl err \<Rightarrow> Inl err
      | Inr repositories' \<Rightarrow> add_runs parse current_time repositories' ers)"

text \<open>
  \<^verbatim>\<open>runs.sort(key=lambda x: x["updated_at"], reverse=True)\<close>: sorting two or more runs
  compares every key with another one, which raises \<^verbatim>\<open>TypeError\<close> when a key is
  \<^verbatim>\<open>None\<close>; a list of at most one run is not compared at all.
\<close>

definition sort_runs :: "workflow_info list \<Rightarrow> error + workflow_info list" where
  "sort_runs runs =
     (if 2 \<le> length runs \<and> list_ex (\<lambda>i. info_updated_at i = None) runs then Inl TypeError
      else Inr (sorted_reverse
                  (\<lambda>i. case info_updated_at i of None \<Rightarrow> [] | Some s \<Rightarrow> s) runs))"

text \<open>A loop whose body can raise: the first error ends it.\<close>

fun traverse :: "('a \<Rightarrow> error + 'b) \<Rightarrow> 'a list \<Rightarrow> error + 'b list" where
  "traverse f [] = Inr []"
| "traverse f (x # xs) =
     (case f x of
        Inl err \<Rightarrow> Inl err
      | Inr y \<Rightarrow> (case traverse f xs of Inl err \<Rightarrow> Inl err | Inr ys \<Rightarrow> Inr (y # ys)))"

definition sort_workflows :: "repo_data \<Rightarrow> error + repo_data" where
  "sort_workflows d =
     (case traverse (\<lambda>kv. case sort_runs (snd kv) of
                             Inl err \<Rightarrow> Inl err
                           | Inr runs \<Rightarrow> Inr (fst kv, runs)) (workflows d) of
        Inl err \<Rightarrow> Inl err
      | Inr ws \<Rightarrow> Inr (d\<lparr>workflows := ws\<rparr>))"

record status_summary =
  total_repositories :: nat
  filter_applied :: string
  generated_at :: string
  repositories :: "repo_data list"

text \<open>The events with a \<^verbatim>\<open>workflow_run\<close>, each with its run.\<close>

definition workflow_events :: "event list \<Rightarrow> (event \<times> run) list" where
  "workflow_events evs =
     concat (map (\<lambda>e. case workflow_run e of None \<Rightarrow> [] | Some r \<Rightarrow> [(e, r)]) evs)"

text \<open>\<^verbatim>\<open>if conclusion\<close> holds for a string that is not empty.\<close>

definition given :: "string option \<Rightarrow> bool" where
  "given c = (case c of None \<Rightarrow> False | Some s \<Rightarrow> s \<noteq> [])"

definition get_workflow_status ::
    "parser \<Rightarrow> clock \<Rightarrow> string option \<Rightarrow> files \<Rightarrow> error + status_summary doc" where
  "get_workflow_status parse clk concl fs =
     (case events_file fs of
        None \<Rightarrow> Inr (MessageDoc ''No GitHub Actions events received yet'')
      | Some evs \<Rightarrow>
          if evs = [] then Inr (MessageDoc ''No GitHub Actions events received yet'')
          else
            (let wf_events =
                   (if given concl
                    then filter (\<lambda>er. conclusion (snd er) = concl) (workflow_events evs)
                    else workflow_events evs)
             in case add_runs parse (utcnow clk) [] wf_events of
                  Inl err \<Rightarrow> Inl err
                | Inr reps \<Rightarrow>
                    (case traverse sort_workflows (map snd reps) of
                       Inl err \<Rightarrow> Inl err
                     | Inr sorted_reps \<Rightarrow>
                         Inr (Result
                           \<lparr>total_repositories = length reps,
                            filter_applied =
                              (case concl of
                                 None \<Rightarrow> ''none''
                               | Some c \<Rightarrow> if c = [] then ''none'' else ''conclusion='' @ c),
                            generated_at = utcnow_iso clk,
                            repositories = sorted_reps\<rparr>))))"

text \<open>
  A repository aggregate in which every run recorded so far has an \<^verbatim>\<open>updated_at\<close> string,
  and a dict of such aggregates.
\<close>

definition dated :: "workflow_info \<Rightarrow> bool" where
  "dated i = (info_updated_at i \<noteq> None)"

definition repo_dated :: "repo_data \<Rightarrow> bool" where
  "repo_dated d =
     ((case latest_run d of None \<Rightarrow> True | Some l \<Rightarrow> dated l)
      \<and> list_all (\<lambda>wr. list_all dated (snd wr)) (workflows d))"

definition all_dated :: "(string \<times> repo_data) list \<Rightarrow> bool" where
  "all_dated reps = list_all (\<lambda>kd. repo_dated (snd kd)) reps"

section \<open>Team notification\<close>

text \<open>
  What Python does with a JSON value: \<^verbatim>\<open>x in v\<close> looks for a key of a dict, an element of
  a list or a substring of a string; \<^verbatim>\<open>v[x]\<close> with a string \<^verbatim>\<open>x\<close> reads a dict and raises
  \<^verbatim>\<open>TypeError\<close> on a list or a string; a \<^verbatim>\<open>for\<close> loop runs over the keys of a dict, the
  elements of a list or the characters of a string; \<^verbatim>\<open>v.get(k)\<close> exists for a dict only;
  an empty string, list or dict is false, as \<^verbatim>\<open>None\<close> is.
\<close>

fun is_substring :: "string \<Rightarrow> string \<Rightarrow> bool" where
  "is_substring p [] = (p = [])"
| "is_substring p (c # cs) = (take (length p) (c # cs) = p \<or> is_substring p cs)"

fun py_in :: "string \<Rightarrow> json \<Rightarrow> bool" where
  "py_in x (JDict d) = (dict_get d x \<noteq> None)"
| "py_in x (JList l) = (JStr x \<in> set l)"
| "py_in x (JStr s) = is_substring x s"

fun py_index :: "json \<Rightarrow> string \<Rightarrow> error + json" where
  "py_index (JDict d) x = (case dict_get d x of None \<Rightarrow> Inl KeyError | Some v \<Rightarrow> Inr v)"
| "py_index (JList l) x = Inl TypeError"
| "py_index (JStr s) x = Inl TypeError"

fun py_iter :: "json \<Rightarrow> json list" where
  "py_iter (JDict d) = map (\<lambda>kv. JStr (fst kv)) d"
| "py_iter (JList l) = l"
| "py_iter (JStr s) = map (\<lambda>c. JStr [c]) s"

fun py_get :: "json \<Rightarrow> string \<Rightarrow> error + json option" where
  "py_get (JDict d) k = Inr (dict_get d k)"
| "py_get (JList l) k = Inl AttributeError"
| "py_get (JStr s) k = Inl AttributeError"

fun truthy :: "json option \<Rightarrow> bool" where
  "truthy None = False"
| "truthy (Some (JStr s)) = (s \<noteq> [])"
| "truthy (Some (JList l)) = (l \<noteq> [])"
| "truthy (Some (JDict d)) = (d \<noteq> [])"

text \<open>\<^verbatim>\<open>str.lower()\<close> on the letters A to Z; other characters are kept.\<close>

definition lower :: "string \<Rightarrow> string" where
  "lower s =
     map (\<lambda>c. if CHR ''A'' \<le> c \<and> c \<le> CHR ''Z'' then char_of (of_char c + (32::nat)) else c) s"

text \<open>\<^verbatim>\<open>{**a, **b}\<close>: the entries of \<^verbatim>\<open>a\<close>, then each entry of \<^verbatim>\<open>b\<close> stored in turn.\<close>

definition dict_merge :: "(string \<times> 'v) list \<Rightarrow> (string \<times> 'v) list \<Rightarrow> (string \<times> 'v) list" where
  "dict_merge a b = fold (\<lambda>kv acc. dict_set (fst kv) (snd kv) acc) b a"

definition default_config :: config where
  "default_config =
     [(''repositories'', JDict []),
      (''expertise'',
         JDict [(''frontend'', JList [JStr ''frontend-lead'']),
                (''backend'', JList [JStr ''backend-lead'']),
                (''deployment'', JList [JStr ''devops-lead'']),
                (''security'', JList [JStr ''security-lead'']),
                (''general'', JList [JStr ''tech-lead''])]),
      (''on_call'',
         JDict [(''primary'', JStr ''on-call-primary''),
                (''secondary'', JStr ''on-call-secondary'')])]"

text \<open>
  The configuration the router works with: \<^verbatim>\<open>team_config\<close> is the empty dict without the
  file, and \<^verbatim>\<open>config = {**default_config, **team_config}\<close>.
\<close>

definition merged_config :: "files \<Rightarrow> config" where
  "merged_config fs =
     dict_merge default_config (case team_config_file fs of None \<Rightarrow> [] | Some c \<Rightarrow> c)"

record suggestion =
  sug_type :: string
  person :: json
  reason :: string

text \<open>\<^verbatim>\<open>config.get(key, {})\<close>.\<close>

definition config_get :: "config \<Rightarrow> string \<Rightarrow> json" where
  "config_get config key = (case dict_get config key of None \<Rightarrow> JDict [] | Some v \<Rightarrow> v)"

text \<open>
  Steps 1 and 2 of the router: the people listed under \<open>key\<close> of the top-level entry
  \<open>section\<close>, if that entry has the key.
\<close>

definition listed ::
    "config \<Rightarrow> string \<Rightarrow> string \<Rightarrow> string \<Rightarrow> string \<Rightarrow> error + suggestion list" where
  "listed config section key kind why =
     (if py_in key (config_get config section)
      then
        (case py_index (config_get config section) key of
           Inl err \<Rightarrow> Inl err
         | Inr people \<Rightarrow>
             Inr (map (\<lambda>p. \<lparr>sug_type = kind, person = p, reason = why\<rparr>) (py_iter people)))
      else Inr [])"

text \<open>Step 3 of the router, for one of the two on-call roles.\<close>

definition on_call ::
    "config \<Rightarrow> string \<Rightarrow> string \<Rightarrow> string \<Rightarrow> error + suggestion list" where
  "on_call config role kind why =
     (case py_get (config_get config ''on_call'') role of
        Inl err \<Rightarrow> Inl err
      | Inr v \<Rightarrow>
          if truthy v
          then
            (case v of
               None \<Rightarrow> Inl KeyError
             | Some p \<Rightarrow> Inr [\<lparr>sug_type = kind, person = p, reason = why\<rparr>])
          else Inr [])"

text \<open>Step 4 of the router: the first of three keywords the workflow name contains.\<close>

definition workflow_notes :: "string \<Rightarrow> string list" where
  "workflow_notes wname =
     (if is_substring ''test'' (lower wname)
      then [''QA team should be notified for test failures'']
      else if is_substring ''deploy'' (lower wname)
      then [''DevOps team should be notified for deployment failures'']
      else if is_substring ''security'' (lower wname)
      then [''Security team should be notified for security check failures'']
      else [])"

text \<open>
  The result of \<^verbatim>\<open>suggest_team_notification\<close>. Its \<^verbatim>\<open>config_file_location\<close>, the path of
  the configuration file, is fixed by where the server is installed and is left out.
\<close>

record notification =
  for_repository :: string
  for_workflow :: string
  failure_type :: string
  notification_suggestions :: "suggestion list"
  workflow_specific_notes :: "string list"
  config_exists :: bool

definition route ::
    "config \<Rightarrow> string \<Rightarrow> string \<Rightarrow> string \<Rightarrow> error + suggestion list" where
  "route config repo wname ftype =
     (case listed config ''repositories'' repo ''repository_owner''
             (''Repository owner for '' @ repo) of
        Inl err \<Rightarrow> Inl err
      | Inr owners \<Rightarrow>
          (case listed config ''expertise'' ftype ''expertise''
                  (''Expert in '' @ ftype @ '' issues'') of
             Inl err \<Rightarrow> Inl err
           | Inr experts \<Rightarrow>
               (case on_call config ''primary'' ''on_call_primary''
                       ''Primary on-call engineer'' of
                  Inl err \<Rightarrow> Inl err
                | Inr primary \<Rightarrow>
                    (case on_call config ''secondary'' ''on_call_secondary''
                            ''Secondary on-call engineer'' of
                       Inl err \<Rightarrow> Inl err
                     | Inr secondary \<Rightarrow>
                         Inr (owners @ experts @ primary @ secondary)))))"

definition suggest_team_notification ::
    "string \<Rightarrow> string \<Rightarrow> string \<Rightarrow> files \<Rightarrow> error + notification" where
  "suggest_team_notification repo wname ftype fs =
     (case route (merged_config fs) repo wname ftype of
        Inl err \<Rightarrow> Inl err
      | Inr suggestions \<Rightarrow>
          Inr \<lparr>for_repository = repo, for_workflow = wname, failure_type = ftype,
               notification_suggestions = suggestions,
               workflow_specific_notes = workflow_notes wname,
               config_exists = (team_config_file fs \<noteq> None)\<rparr>)"
section \<open>Example stores\<close>

definition clk0 :: clock where
  "clk0 = \<lparr>utcnow = 1704070800000000, utcnow_iso = ''2024-01-01T01:00:00+00:00''\<rparr>"

definition ev_push :: event where
  "ev_push = \<lparr>timestamp = ''2024-01-01T00:00:00Z'', event_type = ''push'',
              repository = ''a/b'', sender = ''u'', workflow_run = None\<rparr>"

definition ev_ping :: event where
  "ev_ping = \<lparr>timestamp = ''2024-01-01T00:05:00Z'', event_type = ''ping'',
              repository = ''a/b'', sender = ''v'', workflow_run = None\<rparr>"

definition fs_two :: files where
  "fs_two = \<lparr>events_file = Some [ev_push, ev_ping], events_state_file = None,
             team_config_file = None\<rparr>"

definition fs_dup :: files where
  "fs_dup = \<lparr>events_file = Some [ev_push, ev_ping, ev_push\<lparr>sender := ''w''\<rparr>],
             events_state_file = None, team_config_file = None\<rparr>"


text \<open>
  A parser that agrees with \<^verbatim>\<open>datetime.fromisoformat\<close> on the strings of the examples:
  three aware times, one naive time, and no value for any other string.
\<close>

definition parse0 :: parser where
  "parse0 = map_of
     [(''2024-01-01T00:00:00+00:00'', Aware 1704067200000000),
      (''2024-01-01T00:30:00+00:00'', Aware 1704069000000000),
      (''2023-12-30T00:00:00+00:00'', Aware 1703894400000000),
      (''2024-01-01T00:00:00'', Naive 1704067200000000)]"

definition run_ev :: "string \<Rightarrow> string \<Rightarrow> string \<Rightarrow> string option \<Rightarrow> int \<Rightarrow> event" where
  "run_ev ts w c u n =
     \<lparr>timestamp = ts, event_type = ''workflow_run'', repository = ''a/b'', sender = ''u'',
      workflow_run = Some \<lparr>name = w, status = ''completed'', conclusion = Some c,
                           run_number = n, updated_at = u, html_url = ''x''\<rparr>\<rparr>"

definition fail_ev :: "string \<Rightarrow> string \<Rightarrow> int \<Rightarrow> event" where
  "fail_ev ts w n = run_ev ts w ''failure'' (Some ts) n"

definition store :: "event list \<Rightarrow> files" where
  "store evs = \<lparr>events_file = Some evs, events_state_file = None, team_config_file = None\<rparr>"

text \<open>Twelve failures of four workflows: one of A, five of B, three of C, three of D.\<close>

definition evs_fail :: "event list" where
  "evs_fail =
     [fail_ev ''2024-01-01T00:00:00Z'' ''A'' 1,
      fail_ev ''2024-01-01T00:00:00Z'' ''B'' 2,
      fail_ev ''2024-01-01T00:00:00Z'' ''C'' 3,
      fail_ev ''2024-01-01T00:00:00Z'' ''B'' 4,
      fail_ev ''2024-01-01T00:30:00Z'' ''D'' 5,
      fail_ev ''2024-01-01T00:30:00Z'' ''C'' 6,
      fail_ev ''2024-01-01T00:30:00Z'' ''B'' 7,
      fail_ev ''2023-12-30T00:00:00Z'' ''A'' 8,
      fail_ev ''2024-01-01T00:30:00Z'' ''D'' 9,
      fail_ev ''2024-01-01T00:30:00Z'' ''B'' 10,
      fail_ev ''2024-01-01T00:30:00Z'' ''C'' 11,
      fail_ev ''2024-01-01T00:30:00Z'' ''D'' 12,
      fail_ev ''2024-01-01T00:30:00Z'' ''B'' 13]"

text \<open>A team configuration with one top-level key: \<^verbatim>\<open>{"expertise": {"frontend": ["alice"]}}\<close>.\<close>

definition team_frontend :: config where
  "team_frontend = [(''expertise'', JDict [(''frontend'', JList [JStr ''alice''])])]"

definition fs_team :: files where
  "fs_team = \<lparr>events_file = None, events_state_file = None,
              team_config_file = Some team_frontend\<rparr>"

definition fs_none :: files where
  "fs_none = \<lparr>events_file = None, events_state_file = None, team_config_file = None\<rparr>"
section \<open>Properties of the Python primitives\<close>

lemma slice_from_neg:
  "0 < k \<Longrightarrow> slice_from (- k) xs = drop (length xs - nat k) xs"
  by (auto simp: slice_from_def Let_def max_def nat_diff_distrib' intro: arg_cong[where f="\<lambda>n. drop n xs"])

lemma slice_from_zero: "slice_from 0 xs = xs"
  by (simp add: slice_from_def)

lemma count_list_distinct:
  "distinct xs \<Longrightarrow> count_list xs k = (if k \<in> set xs then 1 else 0)"
  by (induction xs) auto

lemma filter_two_positions:
  assumes "i < j" "j < length xs" "P (xs ! i)" "P (xs ! j)"
  shows "2 \<le> length (filter P xs)"
proof -
  have split: "xs = take j xs @ xs ! j # drop (Suc j) xs"
    using assms(2) by (rule id_take_nth_drop)
  have "xs ! i \<in> set (take j xs)"
    using assms(1,2) by (auto simp: in_set_conv_nth intro!: exI[of _ i])
  with assms(3) have "filter P (take j xs) \<noteq> []"
    by (auto simp: filter_empty_conv)
  then have "1 \<le> length (filter P (take j xs))"
    by (cases "filter P (take j xs)") simp_all
  moreover have "length (filter P xs) =
      length (filter P (take j xs)) + length (filter P (xs ! j # drop (Suc j) xs))"
    by (subst split, subst filter_append) simp
  ultimately show ?thesis using assms(4) by simp
qed

section \<open>Properties of the seen state\<close>

lemma event_id_annotate: "event_id (annotate e) = event_id_of e"
  by (simp add: annotate_def)

lemma reply_events_unseen:
  "reply_events (fst (get_unseen_events clk m fs)) =
     map annotate (filter (\<lambda>e. event_id_of e \<notin> stored_ids fs) (stored_events fs))"
  by (simp add: get_unseen_events_def stored_events_def stored_ids_def annotate_def Let_def
           split: option.splits)

lemma events_file_unseen: "events_file (snd (get_unseen_events clk m fs)) = events_file fs"
  by (simp add: get_unseen_events_def Let_def split: option.splits)

lemma events_file_mark: "events_file (snd (mark_events_as_seen clk ids fs)) = events_file fs"
  by (simp add: mark_events_as_seen_def Let_def split: option.splits)

lemma stored_ids_unseen:
  "stored_ids (snd (get_unseen_events clk m fs)) =
     (if m then stored_ids fs \<union> event_id_of ` set (stored_events fs) else stored_ids fs)"
proof (cases "events_file fs")
  case None
  then show ?thesis by (simp add: get_unseen_events_def stored_events_def)
next
  case (Some evs)
  let ?new = "filter (\<lambda>e. event_id_of e \<notin> set (load_seen fs)) evs"
  show ?thesis
  proof (cases "m \<and> ?new \<noteq> []")
    case True
    then have "stored_ids (snd (get_unseen_events clk m fs)) =
                 set (load_seen fs) \<union> event_id_of ` set ?new"
      using Some
      by (simp add: get_unseen_events_def Let_def stored_ids_def load_seen_def py_set_def
            set_update_def image_image)
    also have "\<dots> = set (load_seen fs) \<union> event_id_of ` set evs" by auto
    finally show ?thesis using True Some by (simp add: stored_ids_def stored_events_def)
  next
    case False
    then have same: "snd (get_unseen_events clk m fs) = fs"
      using Some by (auto simp: get_unseen_events_def Let_def)
    show ?thesis
    proof (cases m)
      case True
      with False have "?new = []" by simp
      then have "event_id_of ` set evs \<subseteq> set (load_seen fs)"
        by (auto simp: filter_empty_conv)
      then show ?thesis using same True Some
        by (auto simp: stored_ids_def stored_events_def)
    next
      case False
      then show ?thesis using same by simp
    qed
  qed
qed

lemma stored_ids_mark:
  "stored_ids (snd (mark_events_as_seen clk ids fs)) =
     stored_ids fs \<union> (case ids of None \<Rightarrow> {} | Some xs \<Rightarrow> set xs)"
  by (auto simp: mark_events_as_seen_def stored_ids_def load_seen_def py_set_def
        set_update_def Let_def split: option.splits)

lemma unseen_false_frame: "snd (get_unseen_events clk False fs) = fs"
  by (simp add: get_unseen_events_def Let_def split: option.splits)

lemma unseen_count_length:
  "fst (get_unseen_events clk m fs) = Result r \<Longrightarrow>
     unseen_count r = length (events r) \<and> marked_as_seen r = m"
  by (auto simp: get_unseen_events_def Let_def split: option.splits)

lemma stored_ids_run_call: "stored_ids fs \<subseteq> stored_ids (run_call c fs)"
  by (cases c) (auto simp: stored_ids_unseen stored_ids_mark)

lemma stored_ids_run_calls: "stored_ids fs \<subseteq> stored_ids (fold run_call cs fs)"
proof (induction cs arbitrary: fs)
  case Nil show ?case by simp
next
  case (Cons c cs)
  have "stored_ids fs \<subseteq> stored_ids (run_call c fs)" by (rule stored_ids_run_call)
  also have "\<dots> \<subseteq> stored_ids (fold run_call cs (run_call c fs))" by (rule Cons.IH)
  finally show ?case by simp
qed

lemma events_file_run_calls: "events_file (fold run_call cs fs) = events_file fs"
proof (induction cs arbitrary: fs)
  case Nil show ?case by simp
next
  case (Cons c cs)
  then show ?case by (cases c) (simp_all add: events_file_unseen events_file_mark)
qed

lemma persisted_ids_unseen:
  assumes "events_file fs = Some evs" "e \<in> set evs" "event_id_of e \<notin> stored_ids fs"
  shows "events_state_file (snd (get_unseen_events clk True fs)) =
           Some \<lparr>seen_event_ids =
                    Some (remdups (load_seen fs @
                            remdups (map event_id_of
                              (filter (\<lambda>e. event_id_of e \<notin> stored_ids fs) evs)))),
                  last_processed = Some (utcnow_iso clk),
                  manually_marked_count = None\<rparr>"
proof -
  have "filter (\<lambda>e. event_id_of e \<notin> set (load_seen fs)) evs \<noteq> []"
    using assms(2,3) by (auto simp: filter_empty_conv stored_ids_def)
  then show ?thesis using assms(1)
    by (simp add: get_unseen_events_def Let_def set_update_def py_set_def stored_ids_def
          comp_def)
qed

text \<open>
  Claim C2. For every event store whose event identities are pairwise distinct, a call of
  \<open>get_unseen_events\<close> with \<open>mark_as_seen = True\<close> followed by another call on the files
  it left returns no unseen event the second time: the reply carries no event and, where it
  is a result document, its \<open>unseen_count\<close> is 0. (Without the events file both calls
  return the message document.)
\<close>

theorem unseen_true_then_unseen_empty:
  assumes "distinct (map event_id_of (stored_events fs))"
  shows "reply_events (fst (get_unseen_events clk' m (snd (get_unseen_events clk True fs)))) = []
       \<and> (\<forall>r. fst (get_unseen_events clk' m (snd (get_unseen_events clk True fs))) = Result r
              \<longrightarrow> unseen_count r = 0 \<and> events r = [])"
proof -
  let ?fs' = "snd (get_unseen_events clk True fs)"
  have "stored_events ?fs' = stored_events fs"
    by (simp add: stored_events_def events_file_unseen)
  moreover have "event_id_of ` set (stored_events fs) \<subseteq> stored_ids ?fs'"
    by (simp add: stored_ids_unseen)
  ultimately have "filter (\<lambda>e. event_id_of e \<notin> stored_ids ?fs') (stored_events ?fs') = []"
    by (auto simp: filter_empty_conv)
  then have none: "reply_events (fst (get_unseen_events clk' m ?fs')) = []"
    by (simp add: reply_events_unseen)
  show ?thesis
  proof (intro conjI allI impI)
    show "reply_events (fst (get_unseen_events clk' m ?fs')) = []" by (rule none)
  next
    fix r assume r: "fst (get_unseen_events clk' m ?fs') = Result r"
    with none show "events r = []" by simp
    with unseen_count_length [OF r] show "unseen_count r = 0" by simp
  qed
qed

theorem unseen_true_then_unseen_empty_witness:
  "distinct (map event_id_of (stored_events fs_two))
   \<and> fst (get_unseen_events clk0 True fs_two) =
       Result \<lparr>unseen_count = 2,
               events = [\<lparr>ev = ev_push, event_id = ''2024-01-01T00:00:00Z:push:a/b''\<rparr>,
                         \<lparr>ev = ev_ping, event_id = ''2024-01-01T00:05:00Z:ping:a/b''\<rparr>],
               marked_as_seen = True\<rparr>
   \<and> reply_events (fst (get_unseen_events clk0 False (snd (get_unseen_events clk0 True fs_two)))) = []"
proof -
  have d: "distinct (map event_id_of (stored_events fs_two))"
    by (simp add: stored_events_def fs_two_def event_id_of_def ev_push_def ev_ping_def)
  have first: "fst (get_unseen_events clk0 True fs_two) =
       Result \<lparr>unseen_count = 2,
               events = [\<lparr>ev = ev_push, event_id = ''2024-01-01T00:00:00Z:push:a/b''\<rparr>,
                         \<lparr>ev = ev_ping, event_id = ''2024-01-01T00:05:00Z:ping:a/b''\<rparr>],
               marked_as_seen = True\<rparr>"
    by (simp add: get_unseen_events_def fs_two_def load_seen_def py_set_def event_id_of_def
          ev_push_def ev_ping_def Let_def)
  from d first unseen_true_then_unseen_empty [OF d, of clk0 False clk0]
  show ?thesis by simp
qed

text \<open>
  Claim C3. For every event store and seen state, \<open>get_unseen_events\<close> with
  \<open>mark_as_seen = False\<close> leaves the files as they were (the events file and the state
  file in particular), and a second such call returns the same document as the first.
\<close>

theorem unseen_false_no_write:
  "snd (get_unseen_events clk False fs) = fs
   \<and> events_file (snd (get_unseen_events clk False fs)) = events_file fs
   \<and> events_state_file (snd (get_unseen_events clk False fs)) = events_state_file fs
   \<and> fst (get_unseen_events clk' False (snd (get_unseen_events clk False fs))) =
       fst (get_unseen_events clk False fs)"
proof -
  have same: "snd (get_unseen_events clk False fs) = fs" by (rule unseen_false_frame)
  have "fst (get_unseen_events clk' False fs) = fst (get_unseen_events clk False fs)"
    by (simp add: get_unseen_events_def Let_def split: option.splits)
  with same show ?thesis by simp
qed

text \<open>
  Claim C5. \<open>mark_events_as_seen\<close> called with \<^verbatim>\<open>None\<close> or with the empty list returns
  the error document \<^verbatim>\<open>{"error": "No event IDs provided"}\<close> and leaves the files as
  they were.
\<close>

theorem mark_seen_nothing_provided:
  "mark_events_as_seen clk None fs = (ErrorDoc ''No event IDs provided'', fs)
   \<and> mark_events_as_seen clk (Some []) fs = (ErrorDoc ''No event IDs provided'', fs)"
  by (simp add: mark_events_as_seen_def)

text \<open>
  Claim C7. The set of seen identities only grows: after \<open>get_unseen_events\<close> (with
  either flag) and after \<open>mark_events_as_seen\<close> (with any argument) the Seen-State Store
  holds every identity it held before.
\<close>

theorem seen_ids_grow:
  "stored_ids fs \<subseteq> stored_ids (snd (get_unseen_events clk mark fs))
   \<and> stored_ids fs \<subseteq> stored_ids (snd (mark_events_as_seen clk ids fs))"
  by (auto simp: stored_ids_unseen stored_ids_mark)

theorem seen_ids_grow_witness:
  "stored_ids fs_two = {}
   \<and> stored_ids (snd (get_unseen_events clk0 True fs_two)) =
       {''2024-01-01T00:00:00Z:push:a/b'', ''2024-01-01T00:05:00Z:ping:a/b''}
   \<and> stored_ids (snd (get_unseen_events clk0 True fs_two))
       \<subseteq> stored_ids (snd (mark_events_as_seen clk0 (Some [''x''])
            (snd (get_unseen_events clk0 True fs_two))))"
proof -
  have a: "stored_ids fs_two = {}"
    by (simp add: stored_ids_def load_seen_def py_set_def fs_two_def)
  have b: "stored_ids (snd (get_unseen_events clk0 True fs_two)) =
       {''2024-01-01T00:00:00Z:push:a/b'', ''2024-01-01T00:05:00Z:ping:a/b''}"
  proof -
    have "stored_ids (snd (get_unseen_events clk0 True fs_two)) =
            stored_ids fs_two \<union> event_id_of ` set (stored_events fs_two)"
      by (simp add: stored_ids_unseen)
    also have "\<dots> = {} \<union> event_id_of ` set (stored_events fs_two)"
      by (simp only: a)
    also have "\<dots> = {''2024-01-01T00:00:00Z:push:a/b'', ''2024-01-01T00:05:00Z:ping:a/b''}"
      by (simp add: stored_events_def fs_two_def event_id_of_def ev_push_def ev_ping_def)
    finally show ?thesis .
  qed
  from a b seen_ids_grow [of "snd (get_unseen_events clk0 True fs_two)" clk0 True "Some [''x'']"]
  show ?thesis by simp
qed

text \<open>
  Claim C10. When two events at different positions of the store share an identity that
  is not in the seen set, one call of \<open>get_unseen_events\<close> returns every event with that
  identity, each annotated with it, and \<open>unseen_count\<close> counts each of them; marking as
  seen persists the identity once; and after any further calls of the two writing tools no
  reply of \<open>get_unseen_events\<close> carries an event with that identity.
\<close>

theorem shared_identity:
  assumes evfile: "events_file fs = Some evs"
    and pos: "i < j" "j < length evs"
    and same: "event_id_of (evs ! i) = k" "event_id_of (evs ! j) = k"
    and fresh: "k \<notin> stored_ids fs"
  shows "filter (\<lambda>u. event_id u = k) (reply_events (fst (get_unseen_events clk m fs))) =
           map annotate (filter (\<lambda>e. event_id_of e = k) evs)
       \<and> 2 \<le> length (filter (\<lambda>u. event_id u = k)
                        (reply_events (fst (get_unseen_events clk m fs))))
       \<and> (\<exists>r. fst (get_unseen_events clk m fs) = Result r
              \<and> unseen_count r =
                  length (filter (\<lambda>e. event_id_of e \<notin> stored_ids fs) evs)
              \<and> 2 \<le> unseen_count r)
       \<and> (\<exists>st ids. events_state_file (snd (get_unseen_events clk True fs)) = Some st
              \<and> seen_event_ids st = Some ids \<and> count_list ids k = 1)
       \<and> (\<forall>cs clk' m'. k \<notin> event_id ` set (reply_events (fst (get_unseen_events clk' m'
              (fold run_call cs (snd (get_unseen_events clk True fs)))))))"
proof (intro conjI)
  let ?unseen = "filter (\<lambda>e. event_id_of e \<notin> stored_ids fs) evs"
  have evs: "stored_events fs = evs" using evfile by (simp add: stored_events_def)
  have "filter (\<lambda>u. event_id u = k) (map annotate ?unseen) =
          map annotate (filter (\<lambda>e. event_id_of e = k) ?unseen)"
    by (simp add: filter_map comp_def event_id_annotate)
  also have "filter (\<lambda>e. event_id_of e = k) ?unseen = filter (\<lambda>e. event_id_of e = k) evs"
    using fresh by (auto intro: filter_cong)
  finally show shared: "filter (\<lambda>u. event_id u = k)
        (reply_events (fst (get_unseen_events clk m fs))) =
      map annotate (filter (\<lambda>e. event_id_of e = k) evs)"
    by (simp add: reply_events_unseen evs)
  have two: "2 \<le> length (filter (\<lambda>e. event_id_of e = k) evs)"
    using pos same by (intro filter_two_positions [of i j]) simp_all
  with shared show "2 \<le> length (filter (\<lambda>u. event_id u = k)
        (reply_events (fst (get_unseen_events clk m fs))))"
    by simp
  have "length (filter (\<lambda>e. event_id_of e = k) ?unseen) \<le> length ?unseen"
    by (rule length_filter_le)
  moreover have "filter (\<lambda>e. event_id_of e = k) ?unseen = filter (\<lambda>e. event_id_of e = k) evs"
    using fresh by (auto intro: filter_cong)
  ultimately have "2 \<le> length ?unseen" using two by simp
  then show "\<exists>r. fst (get_unseen_events clk m fs) = Result r
                \<and> unseen_count r = length ?unseen \<and> 2 \<le> unseen_count r"
    using evfile by (simp add: get_unseen_events_def Let_def stored_ids_def)
  have mem: "evs ! j \<in> set evs" using pos by simp
  have k_in: "k \<in> set (map event_id_of ?unseen)"
  proof -
    have "evs ! j \<in> set ?unseen" using mem same(2) fresh by simp
    then have "event_id_of (evs ! j) \<in> event_id_of ` set ?unseen" by (rule imageI)
    then show ?thesis using same(2) by simp
  qed
  have "count_list (remdups (load_seen fs @ remdups (map event_id_of ?unseen))) k = 1"
    using k_in by (subst count_list_distinct) auto
  then show "\<exists>st ids. events_state_file (snd (get_unseen_events clk True fs)) = Some st
                \<and> seen_event_ids st = Some ids \<and> count_list ids k = 1"
    using persisted_ids_unseen [OF evfile mem, of clk] same fresh by simp
  show "\<forall>cs clk' m'. k \<notin> event_id ` set (reply_events (fst (get_unseen_events clk' m'
              (fold run_call cs (snd (get_unseen_events clk True fs))))))"
  proof (intro allI)
    fix cs clk' m'
    let ?fs' = "snd (get_unseen_events clk True fs)"
    have "event_id_of (evs ! j) \<in> event_id_of ` set evs" using mem by (rule imageI)
    then have "k \<in> stored_ids ?fs'"
      using same(2) by (simp add: stored_ids_unseen evs)
    then have "k \<in> stored_ids (fold run_call cs ?fs')"
      using stored_ids_run_calls [of ?fs' cs] by blast
    then show "k \<notin> event_id ` set (reply_events (fst (get_unseen_events clk' m'
              (fold run_call cs ?fs'))))"
      by (auto simp: reply_events_unseen event_id_annotate)
  qed
qed

theorem shared_identity_witness:
  "events_file fs_dup = Some [ev_push, ev_ping, ev_push\<lparr>sender := ''w''\<rparr>]
   \<and> (0::nat) < 2 \<and> 2 < length [ev_push, ev_ping, ev_push\<lparr>sender := ''w''\<rparr>]
   \<and> event_id_of ([ev_push, ev_ping, ev_push\<lparr>sender := ''w''\<rparr>] ! 0) =
       ''2024-01-01T00:00:00Z:push:a/b''
   \<and> event_id_of ([ev_push, ev_ping, ev_push\<lparr>sender := ''w''\<rparr>] ! 2) =
       ''2024-01-01T00:00:00Z:push:a/b''
   \<and> ''2024-01-01T00:00:00Z:push:a/b'' \<notin> stored_ids fs_dup
   \<and> map event_id (reply_events (fst (get_unseen_events clk0 True fs_dup))) =
       [''2024-01-01T00:00:00Z:push:a/b'', ''2024-01-01T00:05:00Z:ping:a/b'',
        ''2024-01-01T00:00:00Z:push:a/b'']
   \<and> load_seen (snd (get_unseen_events clk0 True fs_dup)) =
       [''2024-01-01T00:05:00Z:ping:a/b'', ''2024-01-01T00:00:00Z:push:a/b'']
   \<and> ''2024-01-01T00:00:00Z:push:a/b'' \<notin> event_id ` set (reply_events
         (fst (get_unseen_events clk0 False
           (fold run_call [MarkSeen clk0 (Some [''x'']), Unseen clk0 True]
             (snd (get_unseen_events clk0 True fs_dup))))))"
proof -
  let ?evs = "[ev_push, ev_ping, ev_push\<lparr>sender := ''w''\<rparr>]"
  let ?k = "''2024-01-01T00:00:00Z:push:a/b''"
  have h1: "events_file fs_dup = Some ?evs" by (simp add: fs_dup_def)
  have h2: "(0::nat) < 2" by simp
  have h3: "2 < length ?evs" by simp
  have h4: "event_id_of (?evs ! 0) = ?k" by (simp add: event_id_of_def ev_push_def)
  have h5: "event_id_of (?evs ! 2) = ?k" by (simp add: event_id_of_def ev_push_def)
  have h6: "?k \<notin> stored_ids fs_dup"
    by (simp add: stored_ids_def load_seen_def py_set_def fs_dup_def)
  have ids: "map event_id (reply_events (fst (get_unseen_events clk0 True fs_dup))) =
       [?k, ''2024-01-01T00:05:00Z:ping:a/b'', ?k]"
    by (simp add: get_unseen_events_def fs_dup_def load_seen_def py_set_def event_id_of_def
          ev_push_def ev_ping_def Let_def)
  have stored: "load_seen (snd (get_unseen_events clk0 True fs_dup)) =
       [''2024-01-01T00:05:00Z:ping:a/b'', ?k]"
    by (simp add: get_unseen_events_def fs_dup_def load_seen_def py_set_def set_update_def
          event_id_of_def ev_push_def ev_ping_def Let_def)
  from shared_identity [OF h1 h2 h3 h4 h5 h6, of clk0 True]
  have "?k \<notin> event_id ` set (reply_events
         (fst (get_unseen_events clk0 False
           (fold run_call [MarkSeen clk0 (Some [''x'']), Unseen clk0 True]
             (snd (get_unseen_events clk0 True fs_dup))))))"
    by blast
  with h1 h2 h3 h4 h5 h6 ids stored show ?thesis by simp
qed

section \<open>Properties of recent events\<close>

text \<open>
  Claim C4. For a positive \<open>limit\<close> and a non-empty event list, \<open>get_recent_actions_events\<close>
  returns \<open>min limit (length events)\<close> records, the tail of the stored list in its order;
  without the events file, or with an empty list in it, it returns the empty list.
\<close>

theorem recent_tail:
  "(0 < limit \<and> events_file fs = Some evs \<and> evs \<noteq> [] \<longrightarrow>
      length (get_recent_actions_events limit fs) = min (nat limit) (length evs)
      \<and> get_recent_actions_events limit fs = drop (length evs - nat limit) evs)
   \<and> (events_file fs = None \<longrightarrow> get_recent_actions_events limit fs = [])
   \<and> (events_file fs = Some [] \<longrightarrow> get_recent_actions_events limit fs = [])"
proof (intro conjI impI)
  assume a: "0 < limit \<and> events_file fs = Some evs \<and> evs \<noteq> []"
  then have r: "get_recent_actions_events limit fs = drop (length evs - nat limit) evs"
    by (simp add: get_recent_actions_events_def slice_from_neg)
  then show "get_recent_actions_events limit fs = drop (length evs - nat limit) evs" .
  from r a show "length (get_recent_actions_events limit fs) = min (nat limit) (length evs)"
    by (simp add: min_def)
next
  assume "events_file fs = None"
  then show "get_recent_actions_events limit fs = []"
    by (simp add: get_recent_actions_events_def)
next
  assume "events_file fs = Some []"
  then show "get_recent_actions_events limit fs = []"
    by (simp add: get_recent_actions_events_def slice_from_def)
qed

theorem recent_tail_witness:
  "(0::int) < 2 \<and> events_file fs_dup = Some [ev_push, ev_ping, ev_push\<lparr>sender := ''w''\<rparr>]
   \<and> [ev_push, ev_ping, ev_push\<lparr>sender := ''w''\<rparr>] \<noteq> []
   \<and> get_recent_actions_events 2 fs_dup = [ev_ping, ev_push\<lparr>sender := ''w''\<rparr>]
   \<and> events_file (fs_dup\<lparr>events_file := None\<rparr>) = None
   \<and> get_recent_actions_events 2 (fs_dup\<lparr>events_file := None\<rparr>) = []
   \<and> events_file (fs_dup\<lparr>events_file := Some []\<rparr>) = Some []
   \<and> get_recent_actions_events 2 (fs_dup\<lparr>events_file := Some []\<rparr>) = []"
  using recent_tail [of 2 fs_dup "[ev_push, ev_ping, ev_push\<lparr>sender := ''w''\<rparr>]"]
        recent_tail [of 2 "fs_dup\<lparr>events_file := None\<rparr>" "[]"]
        recent_tail [of 2 "fs_dup\<lparr>events_file := Some []\<rparr>" "[]"]
  by (simp add: fs_dup_def)

text \<open>
  Claim C9. With \<open>limit = 0\<close> and a non-empty event list in the store,
  \<open>get_recent_actions_events\<close> returns the whole list, not the empty one.
\<close>

theorem recent_limit_zero:
  "events_file fs = Some evs \<Longrightarrow> evs \<noteq> [] \<Longrightarrow>
     get_recent_actions_events 0 fs = evs \<and> get_recent_actions_events 0 fs \<noteq> []"
  by (simp add: get_recent_actions_events_def slice_from_zero)

theorem recent_limit_zero_witness:
  "events_file fs_two = Some [ev_push, ev_ping] \<and> [ev_push, ev_ping] \<noteq> []
   \<and> get_recent_actions_events 0 fs_two = [ev_push, ev_ping]"
  using recent_limit_zero [of fs_two "[ev_push, ev_ping]"]
  by (simp add: fs_two_def)


section \<open>Properties of new failures\<close>

lemma sorted_reverse_descending:
  "sorted_wrt (\<lambda>a b. key a \<ge> key b) (sorted_reverse key xs)"
proof -
  have "sorted (map key (sort_key key (rev xs)))" by (rule sorted_sort_key)
  then have "sorted_wrt (\<lambda>a b. key a \<le> key b) (sort_key key (rev xs))"
    by (simp add: sorted_map)
  then show ?thesis
    by (simp add: sorted_reverse_def sorted_wrt_rev)
qed

lemma sorted_reverse_stable:
  "filter (\<lambda>x. key x = k) (sorted_reverse key xs) = filter (\<lambda>x. key x = k) xs"
proof -
  have "filter (\<lambda>x. key x = k) (sorted_reverse key xs) =
          rev (filter (\<lambda>x. key x = k) (sort_key key (rev xs)))"
    by (simp add: sorted_reverse_def rev_filter)
  also have "\<dots> = rev (filter (\<lambda>x. key x = k) (rev xs))"
    by (simp only: sort_key_stable)
  also have "\<dots> = filter (\<lambda>x. key x = k) xs"
    by (simp add: rev_filter)
  finally show ?thesis .
qed

lemma sorted_reverse_set: "set (sorted_reverse key xs) = set xs"
  by (simp add: sorted_reverse_def)

lemma sorted_reverse_length: "length (sorted_reverse key xs) = length xs"
  by (simp add: sorted_reverse_def)

lemma dict_modify_keys: "map fst (dict_modify k f d) = map fst d"
  by (induction d) (auto simp: dict_modify_def)

lemma dict_get_None: "dict_get d k = None \<longleftrightarrow> k \<notin> set (map fst d)"
  by (simp add: dict_get_def map_of_eq_None_iff)

lemma dict_set_keys:
  "map fst (dict_set k v d) = (if k \<in> set (map fst d) then map fst d else map fst d @ [k])"
  by (simp add: dict_set_def dict_get_None dict_modify_keys)

lemma add_failure_keys:
  "map fst (add_failure groups fr) =
     (if failure_key fr \<in> set (map fst groups) then map fst groups
      else map fst groups @ [failure_key fr])"
  by (simp add: add_failure_def Let_def dict_modify_keys dict_set_keys dict_get_None
        failure_key_def)

lemma first_occurrences_seen_cong:
  "set s = set t \<Longrightarrow> first_occurrences s xs = first_occurrences t xs"
proof (induction xs arbitrary: s t)
  case Nil show ?case by simp
next
  case (Cons x xs)
  from Cons.prems have "set (x # s) = set (x # t)" by simp
  from Cons.IH [OF this] Cons.IH [OF Cons.prems] Cons.prems show ?case by simp
qed

lemma first_occurrences_fresh: "x \<in> set (first_occurrences seen xs) \<Longrightarrow> x \<notin> set seen"
proof (induction xs arbitrary: seen)
  case Nil then show ?case by simp
next
  case (Cons y ys)
  then show ?case by (fastforce split: if_splits)
qed

lemma first_occurrences_set: "set (first_occurrences seen xs) = set xs - set seen"
  by (induction xs arbitrary: seen) auto

lemma first_occurrences_distinct: "distinct (first_occurrences seen xs)"
  by (induction xs arbitrary: seen) (auto simp: first_occurrences_set)

lemma fold_add_failure_keys:
  "map fst (fold (\<lambda>fr groups. add_failure groups fr) fl groups) =
     map fst groups @ first_occurrences (map fst groups) (map failure_key fl)"
proof (induction fl arbitrary: groups)
  case Nil
  show ?case by simp
next
  case (Cons fr fl)
  show ?case
  proof (cases "failure_key fr \<in> set (map fst groups)")
    case True
    then show ?thesis using Cons.IH [of "add_failure groups fr"]
      by (simp add: add_failure_keys)
  next
    case False
    have "first_occurrences (map fst groups @ [failure_key fr]) (map failure_key fl) =
          first_occurrences (failure_key fr # map fst groups) (map failure_key fl)"
      by (rule first_occurrences_seen_cong) auto
    with False show ?thesis using Cons.IH [of "add_failure groups fr"]
      by (simp add: add_failure_keys)
  qed
qed

lemma group_failures_keys:
  "map fst (group_failures fl) = first_occurrences [] (map failure_key fl)"
  using fold_add_failure_keys [of fl "[]"] by (simp add: group_failures_def)

lemma dict_modify_absent: "k \<notin> set (map fst d) \<Longrightarrow> dict_modify k f d = d"
  by (induction d) (auto simp: dict_modify_def)

lemma dict_modify_append:
  "dict_modify k f (d @ d') = dict_modify k f d @ dict_modify k f d'"
  by (simp add: dict_modify_def)

lemma dict_modify_single: "dict_modify k f [(k, v)] = [(k, f v)]"
  by (simp add: dict_modify_def)

lemma dict_modify_comp: "dict_modify k f (dict_modify k g d) = dict_modify k (f \<circ> g) d"
  by (induction d) (auto simp: dict_modify_def)

lemma add_failure_known:
  "failure_key fr \<in> set (map fst groups) \<Longrightarrow>
     add_failure groups fr = dict_modify (failure_key fr) (record_failure fr) groups"
  by (simp add: add_failure_def Let_def dict_get_None failure_key_def dict_modify_comp
        record_failure_def comp_assoc del: set_map)

lemma add_failure_new:
  "failure_key fr \<notin> set (map fst groups) \<Longrightarrow>
     add_failure groups fr =
       groups @ [(failure_key fr,
         record_failure fr
           \<lparr>grp_repository = repository (fst fr), workflow_name = name (snd fr),
            failure_count = 0, first_failure = timestamp (fst fr),
            latest_failure = timestamp (fst fr), failures = []\<rparr>)]"
proof -
  assume fresh: "failure_key fr \<notin> set (map fst groups)"
  then have g: "dict_get groups (failure_key fr) = None" by (simp add: dict_get_None)
  have "add_failure groups fr =
      dict_modify (failure_key fr) (record_failure fr)
        (groups @ [(failure_key fr,
           \<lparr>grp_repository = repository (fst fr), workflow_name = name (snd fr),
            failure_count = 0, first_failure = timestamp (fst fr),
            latest_failure = timestamp (fst fr), failures = []\<rparr>)])"
    using g
    by (simp add: add_failure_def Let_def failure_key_def dict_modify_comp dict_set_def
          record_failure_def comp_assoc del: set_map)
  then show ?thesis using fresh
    by (simp add: dict_modify_append dict_modify_absent dict_modify_single)
qed

lemma group_key_record_failure: "group_key (record_failure fr g) = group_key g"
  by (simp add: record_failure_def group_key_def)

lemma failure_count_record_failure:
  "failure_count (record_failure fr g) = failure_count g + 1"
  by (simp add: record_failure_def)

lemma dict_modify_group_key:
  "\<forall>kg \<in> set d. group_key (snd kg) = fst kg \<Longrightarrow>
   \<forall>kg \<in> set (dict_modify k (record_failure fr) d). group_key (snd kg) = fst kg"
  by (induction d) (auto simp: dict_modify_def group_key_record_failure)

lemma add_failure_group_key:
  assumes "\<forall>kg \<in> set groups. group_key (snd kg) = fst kg"
  shows "\<forall>kg \<in> set (add_failure groups fr). group_key (snd kg) = fst kg"
proof (cases "failure_key fr \<in> set (map fst groups)")
  case True
  then show ?thesis using dict_modify_group_key [OF assms]
    by (simp add: add_failure_known del: set_map)
next
  case False
  then show ?thesis using assms
    by (auto simp: add_failure_new group_key_record_failure simp del: set_map)
      (simp add: group_key_def failure_key_def)
qed

lemma fold_add_failure_group_key:
  "\<forall>kg \<in> set groups. group_key (snd kg) = fst kg \<Longrightarrow>
   \<forall>kg \<in> set (fold (\<lambda>fr groups. add_failure groups fr) fl groups). group_key (snd kg) = fst kg"
proof (induction fl arbitrary: groups)
  case Nil then show ?case by simp
next
  case (Cons fr fl)
  from Cons.IH [OF add_failure_group_key [OF Cons.prems]] show ?case by simp
qed

lemma group_failures_group_key:
  "map group_key (map snd (group_failures fl)) = map fst (group_failures fl)"
  using fold_add_failure_group_key [of "[]" fl]
  by (simp add: group_failures_def)

lemma failures_with_key_Cons:
  "failures_with_key k (fr # fl) =
     (if failure_key fr = k then Suc (failures_with_key k fl) else failures_with_key k fl)"
  by (simp add: failures_with_key_def)

lemma key_count_dict_modify:
  "map key_count (dict_modify k (record_failure fr) d) =
     map (\<lambda>kn. if fst kn = k then (fst kn, snd kn + 1) else kn) (map key_count d)"
  by (induction d) (auto simp: dict_modify_def key_count_def failure_count_record_failure)

lemma fold_add_failure_counts:
  "map key_count (fold (\<lambda>fr groups. add_failure groups fr) fl groups) =
     map (\<lambda>kn. (fst kn, snd kn + failures_with_key (fst kn) fl)) (map key_count groups) @
     map (\<lambda>k. (k, failures_with_key k fl))
       (first_occurrences (map fst groups) (map failure_key fl))"
proof (induction fl arbitrary: groups)
  case Nil
  show ?case by (simp add: failures_with_key_def)
next
  case (Cons fr fl)
  let ?key = "failure_key fr"
  show ?case
  proof (cases "?key \<in> set (map fst groups)")
    case True
    have keys: "map fst (add_failure groups fr) = map fst groups"
      using True by (simp add: add_failure_keys)
    have old: "map (\<lambda>kn. (fst kn, snd kn + failures_with_key (fst kn) fl))
                 (map key_count (add_failure groups fr)) =
               map (\<lambda>kn. (fst kn, snd kn + failures_with_key (fst kn) (fr # fl)))
                 (map key_count groups)"
      using True
      by (simp add: add_failure_known key_count_dict_modify failures_with_key_Cons
            del: set_map)
    have fresh: "map (\<lambda>k. (k, failures_with_key k fl))
                   (first_occurrences (map fst groups) (map failure_key fl)) =
                 map (\<lambda>k. (k, failures_with_key k (fr # fl)))
                   (first_occurrences (map fst groups) (map failure_key fl))"
    proof (rule map_cong [OF refl])
      fix k assume "k \<in> set (first_occurrences (map fst groups) (map failure_key fl))"
      then have "k \<notin> set (map fst groups)" by (rule first_occurrences_fresh)
      with True have "?key \<noteq> k" by metis
      then show "(k, failures_with_key k fl) = (k, failures_with_key k (fr # fl))"
        by (simp add: failures_with_key_Cons)
    qed
    show ?thesis
      using Cons.IH [of "add_failure groups fr"] True
      by (simp only: fold_simps keys old fresh list.map first_occurrences.simps if_True)
  next
    case False
    let ?g = "record_failure fr
           \<lparr>grp_repository = repository (fst fr), workflow_name = name (snd fr),
            failure_count = 0, first_failure = timestamp (fst fr),
            latest_failure = timestamp (fst fr), failures = []\<rparr>"
    have add: "add_failure groups fr = groups @ [(?key, ?g)]"
      using False by (rule add_failure_new)
    have keys: "map fst (add_failure groups fr) = map fst groups @ [?key]"
      by (simp add: add)
    have seen: "first_occurrences (map fst groups @ [?key]) (map failure_key fl) =
                first_occurrences (?key # map fst groups) (map failure_key fl)"
      by (rule first_occurrences_seen_cong) auto
    have old: "map (\<lambda>kn. (fst kn, snd kn + failures_with_key (fst kn) fl))
                 (map key_count groups) =
               map (\<lambda>kn. (fst kn, snd kn + failures_with_key (fst kn) (fr # fl)))
                 (map key_count groups)"
    proof (rule map_cong [OF refl])
      fix kn assume "kn \<in> set (map key_count groups)"
      then have "fst kn \<in> set (map fst groups)" by (force simp: key_count_def)
      with False have "?key \<noteq> fst kn" by metis
      then show "(fst kn, snd kn + failures_with_key (fst kn) fl) =
                 (fst kn, snd kn + failures_with_key (fst kn) (fr # fl))"
        by (simp add: failures_with_key_Cons)
    qed
    have fresh: "map (\<lambda>k. (k, failures_with_key k fl))
                   (first_occurrences (?key # map fst groups) (map failure_key fl)) =
                 map (\<lambda>k. (k, failures_with_key k (fr # fl)))
                   (first_occurrences (?key # map fst groups) (map failure_key fl))"
    proof (rule map_cong [OF refl])
      fix k assume "k \<in> set (first_occurrences (?key # map fst groups) (map failure_key fl))"
      then have "k \<notin> set (?key # map fst groups)" by (rule first_occurrences_fresh)
      then have "?key \<noteq> k" by auto
      then show "(k, failures_with_key k fl) = (k, failures_with_key k (fr # fl))"
        by (simp add: failures_with_key_Cons)
    qed
    have one: "key_count (?key, ?g) = (?key, 1)"
      by (simp add: key_count_def failure_count_record_failure)
    have "map key_count (fold (\<lambda>fr groups. add_failure groups fr) (fr # fl) groups) =
          map key_count (fold (\<lambda>fr groups. add_failure groups fr) fl (add_failure groups fr))"
      by simp
    also have "\<dots> =
          map (\<lambda>kn. (fst kn, snd kn + failures_with_key (fst kn) fl))
            (map key_count (add_failure groups fr)) @
          map (\<lambda>k. (k, failures_with_key k fl))
            (first_occurrences (map fst (add_failure groups fr)) (map failure_key fl))"
      by (rule Cons.IH)
    also have "\<dots> =
          map (\<lambda>kn. (fst kn, snd kn + failures_with_key (fst kn) fl))
            (map key_count (groups @ [(?key, ?g)])) @
          map (\<lambda>k. (k, failures_with_key k fl))
            (first_occurrences (map fst groups @ [?key]) (map failure_key fl))"
      by (simp only: keys) (simp only: add)
    also have "\<dots> =
          map (\<lambda>kn. (fst kn, snd kn + failures_with_key (fst kn) (fr # fl)))
            (map key_count groups) @
          (?key, failures_with_key ?key (fr # fl)) #
          map (\<lambda>k. (k, failures_with_key k (fr # fl)))
            (first_occurrences (?key # map fst groups) (map failure_key fl))"
      by (simp only: seen old [symmetric] fresh [symmetric] map_append list.map one)
         (simp add: failures_with_key_Cons)
    finally show ?thesis using False by simp
  qed
qed

lemma group_failures_counts:
  "map (\<lambda>g. (group_key g, failure_count g)) (map snd (group_failures fl)) =
     map (\<lambda>k. (k, failures_with_key k fl)) (first_occurrences [] (map failure_key fl))"
proof -
  have gk: "\<forall>kg \<in> set (group_failures fl). group_key (snd kg) = fst kg"
    using fold_add_failure_group_key [of "[]" fl] by (simp add: group_failures_def)
  have "map (\<lambda>g. (group_key g, failure_count g)) (map snd (group_failures fl)) =
        map key_count (group_failures fl)"
    using gk by (auto simp: key_count_def)
  also have "\<dots> = map (\<lambda>k. (k, failures_with_key k fl))
                     (first_occurrences [] (map failure_key fl))"
    using fold_add_failure_counts [of fl "[]"] by (simp add: group_failures_def)
  finally show ?thesis .
qed

lemma select_failures_order:
  "select_failures parse cutoff evs = Inr fl \<Longrightarrow>
     map fst fl = filter (in_window parse cutoff) evs"
proof (induction evs arbitrary: fl)
  case Nil
  then show ?case by simp
next
  case (Cons e es)
  show ?case
  proof (cases "failed_run e")
    case None
    with Cons show ?thesis by (simp add: in_window_def)
  next
    case (Some r)
    with Cons.prems obtain t rest where
      p: "parse (replace_Z (timestamp e)) = Some (Aware t)"
      and rest: "select_failures parse cutoff es = Inr rest"
      and fl: "fl = (if t \<ge> cutoff then (e, r) # rest else rest)"
      by (auto split: option.splits pydt.splits sum.splits)
    from Cons.IH [OF rest] Some p fl show ?thesis
      by (simp add: in_window_def)
  qed
qed

text \<open>
  Claim C8. Whenever \<open>get_new_failures\<close> returns its result, the failure groups are in
  descending order of \<open>failure_count\<close>, and groups with the same count keep the order of
  the groups before sorting. That order is the order in which the group keys
  \<^verbatim>\<open>repository:workflow_name\<close> first occur among the selected failures, which are the
  failures of the event list in its order; the count of a group is the number of selected
  failures with its key.
\<close>

theorem new_failures_sorted:
  assumes "get_new_failures parse clk since_hours fs = Inr (Result r)"
  shows "sorted_wrt (\<lambda>a b. failure_count a \<ge> failure_count b) (failure_groups r)
       \<and> (\<exists>evs cutoff fl.
             events_file fs = Some evs
           \<and> cutoff_time (utcnow clk) since_hours = Inr cutoff
           \<and> select_failures parse cutoff evs = Inr fl
           \<and> map fst fl = filter (in_window parse cutoff) evs
           \<and> (\<forall>n. filter (\<lambda>g. failure_count g = n) (failure_groups r) =
                    filter (\<lambda>g. failure_count g = n) (map snd (group_failures fl)))
           \<and> map (\<lambda>g. (group_key g, failure_count g)) (map snd (group_failures fl)) =
               map (\<lambda>k. (k, failures_with_key k fl))
                 (first_occurrences [] (map failure_key fl)))"
proof -
  from assms obtain evs cutoff fl where
    f: "events_file fs = Some evs"
    and c: "cutoff_time (utcnow clk) since_hours = Inr cutoff"
    and s: "select_failures parse cutoff evs = Inr fl"
    and r: "failure_groups r = sorted_reverse failure_count (map snd (group_failures fl))"
    by (auto simp: get_new_failures_def Let_def split: option.splits sum.splits)
  have "sorted_wrt (\<lambda>a b. failure_count a \<ge> failure_count b) (failure_groups r)"
    unfolding r by (rule sorted_reverse_descending)
  moreover have "\<forall>n. filter (\<lambda>g. failure_count g = n) (failure_groups r) =
                    filter (\<lambda>g. failure_count g = n) (map snd (group_failures fl))"
    unfolding r by (simp add: sorted_reverse_stable)
  ultimately show ?thesis
    using f c s select_failures_order [OF s] group_failures_counts [of fl] by blast
qed

theorem new_failures_sorted_witness:
  "\<exists>r. get_new_failures parse0 clk0 24 (store evs_fail) = Inr (Result r)
     \<and> map (\<lambda>g. (workflow_name g, failure_count g)) (failure_groups r) =
         [(''B'', 5), (''C'', 3), (''D'', 3), (''A'', 1)]
     \<and> sorted_wrt (\<lambda>a b. failure_count a \<ge> failure_count b) (failure_groups r)"
proof -
  let ?x = "get_new_failures parse0 clk0 24 (store evs_fail)"
  let ?view = "\<lambda>r. map (\<lambda>g. (workflow_name g, failure_count g)) (failure_groups r)"
  have v: "(case ?x of Inr (Result r) \<Rightarrow> ?view r | _ \<Rightarrow> []) =
             [(''B'', 5), (''C'', 3), (''D'', 3), (''A'', 1)]"
    by code_simp
  have "\<exists>r. ?x = Inr (Result r)"
  proof (cases ?x)
    case (Inl e)
    with v show ?thesis by simp
  next
    case (Inr d)
    with v show ?thesis by (cases d) simp_all
  qed
  then obtain r where r: "?x = Inr (Result r)" ..
  with v have m: "?view r = [(''B'', 5), (''C'', 3), (''D'', 3), (''A'', 1)]" by simp
  from new_failures_sorted [OF r]
  have "sorted_wrt (\<lambda>a b. failure_count a \<ge> failure_count b) (failure_groups r)" ..
  with r m show ?thesis by (intro exI [of _ r] conjI)
qed

lemma select_failures_parsable:
  "list_all (\<lambda>e. failed_run e = None \<or> (\<exists>t. parse (replace_Z (timestamp e)) = Some (Aware t))) evs
     \<Longrightarrow> \<exists>fl. select_failures parse cutoff evs = Inr fl"
  by (induction evs) (auto split: option.splits)

lemma new_failures_parsable:
  assumes "events_file fs = Some evs" "cutoff_time (utcnow clk) since_hours = Inr cutoff"
    and "list_all (\<lambda>e. failed_run e = None \<or>
                       (\<exists>t. parse (replace_Z (timestamp e)) = Some (Aware t))) evs"
  shows "\<exists>r. get_new_failures parse clk since_hours fs = Inr (Result r)"
proof -
  from select_failures_parsable [OF assms(3), of cutoff]
  obtain fl where "select_failures parse cutoff evs = Inr fl" ..
  with assms(1,2) show ?thesis by (simp add: get_new_failures_def Let_def)
qed

lemma select_failures_unparsable:
  assumes "e \<in> set evs" "failed_run e = Some r" "parse (replace_Z (timestamp e)) = None"
  shows "\<exists>err. select_failures parse cutoff evs = Inl err"
  using assms(1)
proof (induction evs)
  case Nil
  then show ?case by simp
next
  case (Cons x xs)
  show ?case
  proof (cases "x = e")
    case True
    with assms(2,3) show ?thesis by simp
  next
    case False
    with Cons obtain err where "select_failures parse cutoff xs = Inl err" by auto
    then show ?thesis
      by (auto split: option.splits pydt.splits)
  qed
qed

lemma new_failures_unparsable:
  assumes "events_file fs = Some evs" "e \<in> set evs" "failed_run e = Some r"
    and "parse (replace_Z (timestamp e)) = None"
  shows "\<exists>err. get_new_failures parse clk since_hours fs = Inl err"
proof (cases "cutoff_time (utcnow clk) since_hours")
  case (Inl err)
  with assms(1) show ?thesis by (simp add: get_new_failures_def)
next
  case (Inr cutoff)
  from select_failures_unparsable [where parse = parse and cutoff = cutoff, OF assms(2-4)]
  obtain err where "select_failures parse cutoff evs = Inl err" ..
  with Inr assms(1) show ?thesis by (simp add: get_new_failures_def)
qed

text \<open>
  Claim C1. The claim is that a malformed timestamp never aborts a query. In
  \<open>get_new_failures\<close> a failure event whose timestamp does not parse raises \<^verbatim>\<open>ValueError\<close>:
  the store with one well-formed failure gives its group, the same store with a second
  failure stamped \<^verbatim>\<open>not-a-date\<close> gives no result at all. In \<open>get_workflow_status\<close> a run
  without \<^verbatim>\<open>updated_at\<close> is flagged when it is the only run of its repository, and raises
  \<^verbatim>\<open>TypeError\<close> when the repository has another run.
\<close>

theorem malformed_timestamp_aborts:
  "get_new_failures parse0 clk0 24 (store [fail_ev ''2024-01-01T00:00:00Z'' ''CI'' 1]) =
     Inr (Result
       \<lparr>time_window_hours = 24, total_failure_groups = 1, total_individual_failures = 1,
        failure_groups =
          [\<lparr>grp_repository = ''a/b'', workflow_name = ''CI'', failure_count = 1,
            first_failure = ''2024-01-01T00:00:00Z'',
            latest_failure = ''2024-01-01T00:00:00Z'',
            failures = [\<lparr>occ_timestamp = ''2024-01-01T00:00:00Z'', occ_run_number = 1,
                         occ_html_url = ''x'', occ_sender = ''u''\<rparr>]\<rparr>]\<rparr>)
   \<and> get_new_failures parse0 clk0 24
        (store [fail_ev ''2024-01-01T00:00:00Z'' ''CI'' 1, fail_ev ''not-a-date'' ''CI'' 2]) =
     Inl ValueError
   \<and> get_workflow_status parse0 clk0 None
        (store [run_ev ''2024-01-01T00:00:00Z'' ''CI'' ''success'' None 1]) =
     Inr (Result
       \<lparr>total_repositories = 1, filter_applied = ''none'',
        generated_at = ''2024-01-01T01:00:00+00:00'',
        repositories =
          [\<lparr>repo_name = ''a/b'',
            workflows =
              [(''CI'', [\<lparr>info_name = ''CI'', info_status = ''completed'',
                         info_conclusion = Some ''success'', info_run_number = 1,
                         info_updated_at = None,
                         time_since_run = TimeError ''No timestamp available'',
                         info_html_url = ''x''\<rparr>])],
            latest_run =
              Some \<lparr>info_name = ''CI'', info_status = ''completed'',
                    info_conclusion = Some ''success'', info_run_number = 1,
                    info_updated_at = None,
                    time_since_run = TimeError ''No timestamp available'',
                    info_html_url = ''x''\<rparr>,
            total_runs = 1\<rparr>]\<rparr>)
   \<and> get_workflow_status parse0 clk0 None
        (store [run_ev ''2024-01-01T00:00:00Z'' ''CI'' ''success''
                  (Some ''2024-01-01T00:00:00Z'') 1,
                run_ev ''2024-01-01T00:30:00Z'' ''CI'' ''success'' None 2]) =
     Inl TypeError"
  by code_simp

section \<open>Properties of the team notification\<close>

lemma dict_get_dict_modify:
  "dict_get (dict_modify k f d) k' =
     (if k' = k then map_option f (dict_get d k) else dict_get d k')"
  by (induction d) (auto simp: dict_get_def dict_modify_def)

lemma dict_get_dict_set:
  "dict_get (dict_set k v d) k' = (if k' = k then Some v else dict_get d k')"
proof (cases "dict_get d k")
  case None
  then show ?thesis
    by (auto simp: dict_set_def dict_get_def map_add_def split: option.splits)
next
  case (Some u)
  then show ?thesis by (simp add: dict_set_def dict_get_dict_modify)
qed

lemma dict_get_Cons:
  "dict_get (kv # d) k = (if fst kv = k then Some (snd kv) else dict_get d k)"
  by (cases kv) (simp add: dict_get_def)

lemma dict_get_dict_merge:
  "distinct (map fst b) \<Longrightarrow>
     dict_get (dict_merge a b) k =
       (case dict_get b k of None \<Rightarrow> dict_get a k | Some v \<Rightarrow> Some v)"
proof (induction b arbitrary: a)
  case Nil
  show ?case by (simp add: dict_merge_def dict_get_def)
next
  case (Cons kv b)
  from Cons.prems have d: "distinct (map fst b)" and fresh: "fst kv \<notin> fst ` set b" by auto
  from fresh have none: "dict_get b (fst kv) = None"
    by (simp add: dict_get_def map_of_eq_None_iff)
  have "dict_get (dict_merge a (kv # b)) k = dict_get (dict_merge (dict_set (fst kv) (snd kv) a) b) k"
    by (simp add: dict_merge_def)
  also have "\<dots> = (case dict_get b k of
                      None \<Rightarrow> dict_get (dict_set (fst kv) (snd kv) a) k
                    | Some v \<Rightarrow> Some v)"
    by (rule Cons.IH [OF d])
  also have "\<dots> = (case dict_get (kv # b) k of None \<Rightarrow> dict_get a k | Some v \<Rightarrow> Some v)"
    using none by (auto simp: dict_get_dict_set dict_get_Cons split: option.splits)
  finally show ?case .
qed

lemma listed_kind:
  "listed config section key kind why = Inr l \<Longrightarrow> s \<in> set l \<Longrightarrow> sug_type s = kind"
  by (auto simp: listed_def split: if_splits sum.splits)

lemma on_call_kind:
  "on_call config role kind why = Inr l \<Longrightarrow> s \<in> set l \<Longrightarrow> sug_type s = kind"
  by (auto simp: on_call_def split: if_splits sum.splits option.splits)

lemma listed_absent:
  "dict_get config section = Some (JDict m) \<Longrightarrow> dict_get m key = None \<Longrightarrow>
     listed config section key kind why = Inr []"
  by (simp add: listed_def config_get_def)

lemma route_parts:
  assumes "route config repo wname ftype = Inr l"
  obtains owners experts primary secondary where
    "listed config ''repositories'' repo ''repository_owner''
       (''Repository owner for '' @ repo) = Inr owners"
    "listed config ''expertise'' ftype ''expertise''
       (''Expert in '' @ ftype @ '' issues'') = Inr experts"
    "on_call config ''primary'' ''on_call_primary'' ''Primary on-call engineer'' = Inr primary"
    "on_call config ''secondary'' ''on_call_secondary'' ''Secondary on-call engineer'' =
       Inr secondary"
    "l = owners @ experts @ primary @ secondary"
  using assms unfolding route_def
  by (auto simp only: sum.case sum.inject sum.distinct split: sum.splits)

lemma route_without_expert:
  assumes "dict_get config ''expertise'' = Some (JDict m)" "dict_get m ftype = None"
    and "route config repo wname ftype = Inr l" "s \<in> set l"
  shows "sug_type s \<noteq> ''expertise''"
proof -
  from assms(3) obtain owners experts primary secondary where
    o: "listed config ''repositories'' repo ''repository_owner''
          (''Repository owner for '' @ repo) = Inr owners"
    and e: "listed config ''expertise'' ftype ''expertise''
          (''Expert in '' @ ftype @ '' issues'') = Inr experts"
    and p: "on_call config ''primary'' ''on_call_primary'' ''Primary on-call engineer'' =
          Inr primary"
    and q: "on_call config ''secondary'' ''on_call_secondary'' ''Secondary on-call engineer'' =
          Inr secondary"
    and l: "l = owners @ experts @ primary @ secondary"
    by (rule route_parts)
  from e listed_absent [OF assms(1,2)] have "experts = []" by simp
  with assms(4) l consider "s \<in> set owners" | "s \<in> set primary" | "s \<in> set secondary"
    by auto
  then show ?thesis
  proof cases
    case 1 with listed_kind [OF o] show ?thesis by simp
  next
    case 2 with on_call_kind [OF p] show ?thesis by simp
  next
    case 3 with on_call_kind [OF q] show ?thesis by simp
  qed
qed

text \<open>
  Claim C6. The team configuration is merged over the defaults key by key at the top
  level only: without the file the defaults apply; with a file, a top-level key the file
  has takes the file's value whole and a key it lacks takes the default. So when the file
  has an \<^verbatim>\<open>expertise\<close> map without the failure type asked for, the router suggests no
  expert, whatever the default map holds. The router's result depends on the repository,
  the workflow name, the failure type and the configuration file only.
\<close>

theorem team_config_shallow_merge:
  "(team_config_file fs = None \<longrightarrow> merged_config fs = default_config)
   \<and> (\<forall>team. team_config_file fs = Some team \<and> distinct (map fst team) \<longrightarrow>
         (\<forall>k. dict_get (merged_config fs) k =
               (case dict_get team k of None \<Rightarrow> dict_get default_config k | Some v \<Rightarrow> Some v)))
   \<and> (\<forall>team m n. team_config_file fs = Some team \<and> distinct (map fst team)
         \<and> dict_get team ''expertise'' = Some (JDict m) \<and> dict_get m ftype = None
         \<and> suggest_team_notification repo wname ftype fs = Inr n \<longrightarrow>
         ''expertise'' \<notin> sug_type ` set (notification_suggestions n))
   \<and> (team_config_file fs = team_config_file fs' \<longrightarrow>
         suggest_team_notification repo wname ftype fs =
         suggest_team_notification repo wname ftype fs')"
proof (intro conjI allI impI)
  assume "team_config_file fs = None"
  then show "merged_config fs = default_config"
    by (simp add: merged_config_def dict_merge_def)
next
  fix team k
  assume "team_config_file fs = Some team \<and> distinct (map fst team)"
  then show "dict_get (merged_config fs) k =
      (case dict_get team k of None \<Rightarrow> dict_get default_config k | Some v \<Rightarrow> Some v)"
    by (simp add: merged_config_def dict_get_dict_merge)
next
  fix team m n
  assume a: "team_config_file fs = Some team \<and> distinct (map fst team)
         \<and> dict_get team ''expertise'' = Some (JDict m) \<and> dict_get m ftype = None
         \<and> suggest_team_notification repo wname ftype fs = Inr n"
  then have "dict_get (merged_config fs) ''expertise'' = Some (JDict m)"
    by (simp add: merged_config_def dict_get_dict_merge)
  moreover from a have "route (merged_config fs) repo wname ftype = Inr (notification_suggestions n)"
    by (auto simp: suggest_team_notification_def split: sum.splits)
  ultimately have "\<And>s. s \<in> set (notification_suggestions n) \<Longrightarrow> sug_type s \<noteq> ''expertise''"
    using a route_without_expert by blast
  then show "''expertise'' \<notin> sug_type ` set (notification_suggestions n)" by force
next
  assume same: "team_config_file fs = team_config_file fs'"
  show "suggest_team_notification repo wname ftype fs =
         suggest_team_notification repo wname ftype fs'"
    unfolding suggest_team_notification_def merged_config_def same ..
qed

theorem team_config_shallow_merge_witness:
  "team_config_file fs_none = None \<and> merged_config fs_none = default_config
   \<and> team_config_file fs_team = Some team_frontend \<and> distinct (map fst team_frontend)
   \<and> dict_get (merged_config fs_team) ''expertise'' =
       Some (JDict [(''frontend'', JList [JStr ''alice''])])
   \<and> dict_get (merged_config fs_team) ''on_call'' = dict_get default_config ''on_call''
   \<and> dict_get team_frontend ''expertise'' =
       Some (JDict [(''frontend'', JList [JStr ''alice''])])
   \<and> dict_get [(''frontend'', JList [JStr ''alice''])] ''backend'' = None
   \<and> suggest_team_notification ''a/b'' ''CI'' ''backend'' fs_team =
       Inr \<lparr>for_repository = ''a/b'', for_workflow = ''CI'', failure_type = ''backend'',
            notification_suggestions =
              [\<lparr>sug_type = ''on_call_primary'', person = JStr ''on-call-primary'',
                reason = ''Primary on-call engineer''\<rparr>,
               \<lparr>sug_type = ''on_call_secondary'', person = JStr ''on-call-secondary'',
                reason = ''Secondary on-call engineer''\<rparr>],
            workflow_specific_notes = [], config_exists = True\<rparr>
   \<and> suggest_team_notification ''a/b'' ''CI'' ''backend'' fs_none =
       Inr \<lparr>for_repository = ''a/b'', for_workflow = ''CI'', failure_type = ''backend'',
            notification_suggestions =
              [\<lparr>sug_type = ''expertise'', person = JStr ''backend-lead'',
                reason = ''Expert in backend issues''\<rparr>,
               \<lparr>sug_type = ''on_call_primary'', person = JStr ''on-call-primary'',
                reason = ''Primary on-call engineer''\<rparr>,
               \<lparr>sug_type = ''on_call_secondary'', person = JStr ''on-call-secondary'',
                reason = ''Secondary on-call engineer''\<rparr>],
            workflow_specific_notes = [], config_exists = False\<rparr>
   \<and> team_config_file fs_team = team_config_file (fs_team\<lparr>events_file := Some []\<rparr>)
   \<and> suggest_team_notification ''a/b'' ''CI'' ''backend'' fs_team =
       suggest_team_notification ''a/b'' ''CI'' ''backend'' (fs_team\<lparr>events_file := Some []\<rparr>)"
proof -
  have h1: "team_config_file fs_none = None" by (simp add: fs_none_def)
  have h2: "team_config_file fs_team = Some team_frontend" by (simp add: fs_team_def)
  have h3: "distinct (map fst team_frontend)" by (simp add: team_frontend_def)
  have h4: "dict_get team_frontend ''expertise'' =
       Some (JDict [(''frontend'', JList [JStr ''alice''])])"
    by (simp add: team_frontend_def dict_get_def)
  have h5: "dict_get [(''frontend'', JList [JStr ''alice''])] ''backend'' = None"
    by (simp add: dict_get_def)
  have h6: "team_config_file fs_team = team_config_file (fs_team\<lparr>events_file := Some []\<rparr>)"
    by simp
  have h7: "dict_get team_frontend ''on_call'' = None"
    by (simp add: team_frontend_def dict_get_def)
  have r1: "suggest_team_notification ''a/b'' ''CI'' ''backend'' fs_team =
       Inr \<lparr>for_repository = ''a/b'', for_workflow = ''CI'', failure_type = ''backend'',
            notification_suggestions =
              [\<lparr>sug_type = ''on_call_primary'', person = JStr ''on-call-primary'',
                reason = ''Primary on-call engineer''\<rparr>,
               \<lparr>sug_type = ''on_call_secondary'', person = JStr ''on-call-secondary'',
                reason = ''Secondary on-call engineer''\<rparr>],
            workflow_specific_notes = [], config_exists = True\<rparr>"
    by code_simp
  have r2: "suggest_team_notification ''a/b'' ''CI'' ''backend'' fs_none =
       Inr \<lparr>for_repository = ''a/b'', for_workflow = ''CI'', failure_type = ''backend'',
            notification_suggestions =
              [\<lparr>sug_type = ''expertise'', person = JStr ''backend-lead'',
                reason = ''Expert in backend issues''\<rparr>,
               \<lparr>sug_type = ''on_call_primary'', person = JStr ''on-call-primary'',
                reason = ''Primary on-call engineer''\<rparr>,
               \<lparr>sug_type = ''on_call_secondary'', person = JStr ''on-call-secondary'',
                reason = ''Secondary on-call engineer''\<rparr>],
            workflow_specific_notes = [], config_exists = False\<rparr>"
    by code_simp
  note a = team_config_shallow_merge [where fs = fs_none and ftype = "''backend''"
      and repo = "''a/b''" and wname = "''CI''" and fs' = fs_none]
  note b = team_config_shallow_merge [where fs = fs_team and ftype = "''backend''"
      and repo = "''a/b''" and wname = "''CI''"
      and fs' = "fs_team\<lparr>events_file := Some []\<rparr>"]
  from a h1 have c1: "merged_config fs_none = default_config" by blast
  from b h2 h3 have look: "\<And>k. dict_get (merged_config fs_team) k =
      (case dict_get team_frontend k of None \<Rightarrow> dict_get default_config k | Some v \<Rightarrow> Some v)"
    by blast
  have c2: "dict_get (merged_config fs_team) ''expertise'' =
       Some (JDict [(''frontend'', JList [JStr ''alice''])])"
    by (simp add: look h4)
  have c3: "dict_get (merged_config fs_team) ''on_call'' = dict_get default_config ''on_call''"
    by (simp add: look h7)
  from b h6 have c4: "suggest_team_notification ''a/b'' ''CI'' ''backend'' fs_team =
       suggest_team_notification ''a/b'' ''CI'' ''backend'' (fs_team\<lparr>events_file := Some []\<rparr>)"
    by blast
  show ?thesis
    by (intro conjI h1 c1 h2 h3 c2 c3 h4 h5 r1 r2 h6 c4)
qed

section \<open>Properties of the workflow status\<close>

text \<open>
  Where \<open>get_workflow_status\<close> does return: an \<^verbatim>\<open>updated_at\<close> string that does not parse
  is flagged in \<open>time_since_run\<close>, and the call returns for every store in which each run
  has an \<^verbatim>\<open>updated_at\<close> string, parsable or not.
\<close>

lemma list_all_dict_modify:
  "list_all (\<lambda>kv. P (snd kv)) d \<Longrightarrow> (\<And>v. P v \<Longrightarrow> P (f v)) \<Longrightarrow>
     list_all (\<lambda>kv. P (snd kv)) (dict_modify k f d)"
  by (induction d) (auto simp: dict_modify_def)

lemma list_all_dict_set:
  "list_all (\<lambda>kv. P (snd kv)) d \<Longrightarrow> P v \<Longrightarrow> list_all (\<lambda>kv. P (snd kv)) (dict_set k v d)"
  by (auto simp: dict_set_def intro: list_all_dict_modify)

lemma dict_get_modify_None: "dict_get (dict_modify k f d) k' = None \<longleftrightarrow> dict_get d k' = None"
  by (simp add: dict_get_None dict_modify_keys)


lemma dict_get_list_all:
  "dict_get d k = Some v \<Longrightarrow> list_all (\<lambda>kv. P (snd kv)) d \<Longrightarrow> P v"
  by (auto simp: dict_get_def list_all_iff dest!: map_of_SomeD)

lemma elapsed_since_unparsable:
  "s \<noteq> [] \<Longrightarrow> parse (replace_Z s) = None \<Longrightarrow>
     elapsed_since parse current_time (Some s) = TimeError ''Could not parse timestamp''"
  by (simp add: elapsed_since_def)

lemma add_run_dated:
  assumes inv: "all_dated reps" and u: "updated_at (snd er) \<noteq> None"
  shows "\<exists>reps'. add_run parse current_time reps er = Inr reps' \<and> all_dated reps'"
proof -
  let ?repo = "repository (fst er)"
  let ?w = "name (snd er)"
  let ?info = "\<lparr>info_name = ?w, info_status = status (snd er),
                 info_conclusion = conclusion (snd er), info_run_number = run_number (snd er),
                 info_updated_at = updated_at (snd er),
                 time_since_run = elapsed_since parse current_time (updated_at (snd er)),
                 info_html_url = html_url (snd er)\<rparr>"
  let ?reps1 = "if dict_get reps ?repo = None
                then dict_set ?repo
                       \<lparr>repo_name = ?repo, workflows = [], latest_run = None, total_runs = 0\<rparr> reps
                else reps"
  let ?reps2 = "dict_modify ?repo (\<lambda>d. d\<lparr>total_runs := total_runs d + 1\<rparr>) ?reps1"
  let ?reps3 = "dict_modify ?repo
                    (\<lambda>d. if dict_get (workflows d) ?w = None
                         then d\<lparr>workflows := dict_set ?w [] (workflows d)\<rparr> else d) ?reps2"
  let ?reps4 = "dict_modify ?repo
                    (\<lambda>d. d\<lparr>workflows := dict_modify ?w (\<lambda>l. l @ [?info]) (workflows d)\<rparr>)
                    ?reps3"
  let ?latest = "dict_modify ?repo (\<lambda>d. d\<lparr>latest_run := Some ?info\<rparr>) ?reps4"
  have info: "dated ?info" using u by (simp add: dated_def)
  have 1: "all_dated ?reps1"
    using inv unfolding all_dated_def
    by (auto intro!: list_all_dict_set simp: repo_dated_def)
  have 2: "all_dated ?reps2"
    using 1 unfolding all_dated_def
    by (rule list_all_dict_modify) (simp add: repo_dated_def)
  have 3: "all_dated ?reps3"
    using 2 unfolding all_dated_def
    by (rule list_all_dict_modify) (auto simp: repo_dated_def intro!: list_all_dict_set)
  have 4: "all_dated ?reps4"
    using 3 unfolding all_dated_def
  proof (rule list_all_dict_modify)
    fix d assume d: "repo_dated d"
    then have "list_all (\<lambda>wr. list_all dated (snd wr)) (workflows d)"
      by (simp add: repo_dated_def)
    then have "list_all (\<lambda>wr. list_all dated (snd wr))
                 (dict_modify ?w (\<lambda>l. l @ [?info]) (workflows d))"
      by (rule list_all_dict_modify) (use info in simp)
    with d show "repo_dated (d\<lparr>workflows := dict_modify ?w (\<lambda>l. l @ [?info]) (workflows d)\<rparr>)"
      by (simp add: repo_dated_def)
  qed
  have 5: "all_dated ?latest"
    using 4 unfolding all_dated_def
    by (rule list_all_dict_modify) (use info in \<open>simp add: repo_dated_def\<close>)
  have "dict_get ?reps1 ?repo \<noteq> None" by (auto simp: dict_get_dict_set)
  then have "dict_get ?reps4 ?repo \<noteq> None" by (simp only: dict_get_modify_None simp_thms)
  then obtain d where d: "dict_get ?reps4 ?repo = Some d" by auto
  from dict_get_list_all [OF d 4 [unfolded all_dated_def]] have rd: "repo_dated d" .
  have step: "add_run parse current_time reps er =
      (case latest_run d of
         None \<Rightarrow> Inr ?latest
       | Some latest \<Rightarrow>
           (case str_gt (updated_at (snd er)) (info_updated_at latest) of
              Inl err \<Rightarrow> Inl err
            | Inr newer \<Rightarrow> Inr (if newer then ?latest else ?reps4)))"
    using d unfolding add_run_def Let_def by simp
  show ?thesis
  proof (cases "latest_run d")
    case None
    with step 5 show ?thesis by simp
  next
    case (Some latest)
    with rd have "info_updated_at latest \<noteq> None" by (simp add: repo_dated_def dated_def)
    with u obtain x y where "updated_at (snd er) = Some x" "info_updated_at latest = Some y"
      by auto
    with step Some 4 5 show ?thesis by (simp add: str_gt_def)
  qed
qed


lemma add_runs_dated:
  "all_dated reps \<Longrightarrow> list_all (\<lambda>er. updated_at (snd er) \<noteq> None) ers \<Longrightarrow>
     \<exists>reps'. add_runs parse current_time reps ers = Inr reps' \<and> all_dated reps'"
proof (induction ers arbitrary: reps)
  case Nil
  then show ?case by simp
next
  case (Cons er ers)
  from Cons.prems have u: "updated_at (snd er) \<noteq> None"
    and rest: "list_all (\<lambda>er. updated_at (snd er) \<noteq> None) ers" by simp_all
  from add_run_dated [OF Cons.prems(1) u, of parse current_time]
  obtain reps1 where s: "add_run parse current_time reps er = Inr reps1"
    and d: "all_dated reps1" by blast
  from Cons.IH [OF d rest] s show ?case by simp
qed

lemma sort_runs_dated: "list_all dated runs \<Longrightarrow> \<exists>sorted_runs. sort_runs runs = Inr sorted_runs"
  by (auto simp: sort_runs_def list_ex_iff list_all_iff dated_def)

lemma traverse_total:
  "list_all (\<lambda>x. \<exists>y. f x = Inr y) xs \<Longrightarrow> \<exists>ys. traverse f xs = Inr ys"
  by (induction xs) auto

lemma sort_workflows_dated: "repo_dated d \<Longrightarrow> \<exists>d'. sort_workflows d = Inr d'"
proof -
  assume "repo_dated d"
  then have "list_all (\<lambda>wr. list_all dated (snd wr)) (workflows d)"
    by (simp add: repo_dated_def)
  then have "list_all (\<lambda>kv. \<exists>y. (case sort_runs (snd kv) of
                                      Inl err \<Rightarrow> Inl err
                                    | Inr runs \<Rightarrow> Inr (fst kv, runs)) = Inr y) (workflows d)"
    by (rule list.pred_mono_strong) (use sort_runs_dated in fastforce)
  from traverse_total [OF this] show ?thesis
    by (auto simp: sort_workflows_def)
qed

lemma workflow_events_dated:
  "list_all (\<lambda>e. case workflow_run e of None \<Rightarrow> True | Some r \<Rightarrow> updated_at r \<noteq> None) evs \<Longrightarrow>
     list_all (\<lambda>er. updated_at (snd er) \<noteq> None) (workflow_events evs)"
  by (induction evs) (auto simp: workflow_events_def split: option.splits)

lemma status_succeeds_when_dated:
  assumes "events_file fs = Some evs"
    and "list_all (\<lambda>e. case workflow_run e of None \<Rightarrow> True | Some r \<Rightarrow> updated_at r \<noteq> None) evs"
  shows "\<exists>d. get_workflow_status parse clk concl fs = Inr d"
proof (cases "evs = []")
  case True
  with assms(1) show ?thesis by (simp add: get_workflow_status_def)
next
  case False
  let ?sel = "if given concl
              then filter (\<lambda>er. conclusion (snd er) = concl) (workflow_events evs)
              else workflow_events evs"
  have "list_all (\<lambda>er. updated_at (snd er) \<noteq> None) ?sel"
    using workflow_events_dated [OF assms(2)] by (auto simp: list_all_iff)
  moreover have "all_dated []" by (simp add: all_dated_def)
  ultimately obtain reps where r: "add_runs parse (utcnow clk) [] ?sel = Inr reps"
    and d: "all_dated reps"
    using add_runs_dated by blast
  from d have "list_all (\<lambda>x. \<exists>y. sort_workflows x = Inr y) (map snd reps)"
    by (auto simp: all_dated_def list_all_iff dest: sort_workflows_dated)
  from traverse_total [OF this] obtain sorted_reps where
    "traverse sort_workflows (map snd reps) = Inr sorted_reps" ..
  with r False assms(1) show ?thesis
    by (simp add: get_workflow_status_def Let_def)
qed

end
